theory Spec2Isabelle
  imports Main "HOL-Library.Multiset" "HOL-Library.AList"
begin

section \<open>Exceptions and values\<close>

text \<open>
  The exceptions that travel through the acquisition engine. \<open>AuthenticationError\<close> and
  \<open>APIError\<close> are the classes of \<^verbatim>\<open>exceptions.py\<close> (an \<open>APIError\<close> carries its message, its
  \<^verbatim>\<open>status_code\<close> and its \<^verbatim>\<open>url\<close>); \<open>Timeout\<close> is \<^verbatim>\<open>requests.Timeout\<close>,
  \<open>RequestException\<close> any other \<^verbatim>\<open>requests.RequestException\<close> (connection reset, DNS failure),
  \<open>JSONDecodeError\<close> the error of \<^verbatim>\<open>response.json()\<close> (a \<^verbatim>\<open>ValueError\<close> and a
  \<^verbatim>\<open>RequestException\<close> at once). \<open>OtherException\<close> is any further subclass of Python's
  \<^verbatim>\<open>Exception\<close>; \<open>BaseExit\<close> is a \<^verbatim>\<open>BaseException\<close> outside \<^verbatim>\<open>Exception\<close>
  (\<^verbatim>\<open>SystemExit\<close>, \<^verbatim>\<open>KeyboardInterrupt\<close>), which no \<^verbatim>\<open>except Exception\<close> handler catches.
\<close>

datatype py_exn =
    AuthenticationError string
  | APIError string "int option" "string option"
  | Timeout string
  | RequestException string
  | JSONDecodeError string
  | ValueError string
  | TypeError string
  | AttributeError string
  | KeyError string
  | OtherException string
  | BaseExit string

fun is_Exception :: "py_exn \<Rightarrow> bool" where
  "is_Exception (BaseExit _) = False"
| "is_Exception _ = True"

fun is_Timeout :: "py_exn \<Rightarrow> bool" where
  "is_Timeout (Timeout _) = True"
| "is_Timeout _ = False"

fun is_RequestException :: "py_exn \<Rightarrow> bool" where
  "is_RequestException (RequestException _) = True"
| "is_RequestException (Timeout _) = True"
| "is_RequestException (JSONDecodeError _) = True"
| "is_RequestException _ = False"

fun is_AuthenticationError :: "py_exn \<Rightarrow> bool" where
  "is_AuthenticationError (AuthenticationError _) = True"
| "is_AuthenticationError _ = False"

fun is_APIError :: "py_exn \<Rightarrow> bool" where
  "is_APIError (APIError _ _ _) = True"
| "is_APIError _ = False"

fun is_ValueError :: "py_exn \<Rightarrow> bool" where
  "is_ValueError (ValueError _) = True"
| "is_ValueError (JSONDecodeError _) = True"
| "is_ValueError _ = False"

fun is_KeyError :: "py_exn \<Rightarrow> bool" where
  "is_KeyError (KeyError _) = True"
| "is_KeyError _ = False"

fun is_AttributeError :: "py_exn \<Rightarrow> bool" where
  "is_AttributeError (AttributeError _) = True"
| "is_AttributeError _ = False"

text \<open>
  A decoded JSON document. A JSON object is kept as the list of its members in document
  order; \<open>dict_of\<close> builds the Python dict from it (a repeated key keeps its first position
  and its last value). The numeric value of a JSON number plays no role in the engine.
\<close>

datatype json =
    JNull
  | JBool bool
  | JNum int
  | JStr string
  | JList "json list"
  | JObj "(string \<times> json) list"

definition dict_of :: "(string \<times> json) list \<Rightarrow> (string \<times> json) list" where
  "dict_of kvs = foldl (\<lambda>acc (k, v). AList.update k v acc) [] kvs"

fun startswith :: "string \<Rightarrow> string \<Rightarrow> bool" where
  "startswith [] s = True"
| "startswith (p # ps) [] = False"
| "startswith (p # ps) (c # cs) = (p = c \<and> startswith ps cs)"

fun str_contains :: "string \<Rightarrow> string \<Rightarrow> bool" where
  "str_contains p [] = (p = [])"
| "str_contains p (c # cs) = (startswith p (c # cs) \<or> str_contains p cs)"

text \<open>
  Python's \<^verbatim>\<open>key in data\<close> for a string \<open>key\<close>: membership among the keys of a dict, among the
  elements of a list, substring test on a string, and \<^verbatim>\<open>TypeError\<close> on \<^verbatim>\<open>None\<close>, a bool or a
  number.
\<close>

fun py_in :: "string \<Rightarrow> json \<Rightarrow> py_exn + bool" where
  "py_in key (JObj kvs) = Inr (key \<in> fst ` set (dict_of kvs))"
| "py_in key (JList xs) = Inr (JStr key \<in> set xs)"
| "py_in key (JStr s) = Inr (str_contains key s)"
| "py_in key _ = Inl (TypeError ''argument is not iterable'')"

text \<open>\<^verbatim>\<open>data.get(key, default)\<close>: only a dict has the method.\<close>

fun py_get :: "json \<Rightarrow> string \<Rightarrow> json \<Rightarrow> py_exn + json" where
  "py_get (JObj kvs) key dflt =
     Inr (case map_of (dict_of kvs) key of Some v \<Rightarrow> v | None \<Rightarrow> dflt)"
| "py_get _ key dflt = Inl (AttributeError ''object has no attribute get'')"

text \<open>Python's \<^verbatim>\<open>str\<close> of an integer, as the f-strings of the client use it.\<close>

definition digit_char :: "nat \<Rightarrow> char" where
  "digit_char d = ''0123456789'' ! (d mod 10)"

function str_nat :: "nat \<Rightarrow> string" where
  "str_nat n = (if n < 10 then [digit_char n] else str_nat (n div 10) @ [digit_char n])"
  by pat_completeness auto
termination
  by (relation "measure id") auto

declare str_nat.simps [simp del]

definition str_int :: "int \<Rightarrow> string" where
  "str_int i = (if i < 0 then CHR ''-'' # str_nat (nat (- i)) else str_nat (nat i))"

section \<open>The HTTP client (client.py)\<close>

text \<open>
  A response as \<^verbatim>\<open>get\<close> reads it: its status code and its body, \<open>None\<close> when the body is not
  parseable JSON. One call of \<^verbatim>\<open>session.get\<close> either answers with a response or raises.
  The session of a client is the behaviour of the network: for a URL, the outcome of the
  \<open>n\<close>-th attempt of one \<^verbatim>\<open>get\<close> on it.
\<close>

record response =
  status_code :: int
  body :: "json option"

datatype attempt_outcome = Responds response | Throws py_exn

record client =
  base_url :: string
  api_version :: string
  session :: "string \<Rightarrow> nat \<Rightarrow> attempt_outcome"

definition BASE_URL :: string where "BASE_URL = ''https://yzapi.yazio.com''"
definition API_VERSION :: string where "API_VERSION = ''v15''"
definition MAX_RETRIES :: int where "MAX_RETRIES = 3"
definition DEFAULT_WORKERS :: int where "DEFAULT_WORKERS = 10"
definition NUTRIENT_WORKERS :: int where "NUTRIENT_WORKERS = 5"

definition YazioClient :: "(string \<Rightarrow> nat \<Rightarrow> attempt_outcome) \<Rightarrow> client" where
  "YazioClient net = \<lparr>base_url = BASE_URL, api_version = API_VERSION, session = net\<rparr>"

definition get_url :: "client \<Rightarrow> string \<Rightarrow> string" where
  "get_url c endpoint =
     (let endpoint' = (if startswith ''/'' endpoint then drop 1 endpoint else endpoint)
      in base_url c @ ''/'' @ api_version c @ ''/'' @ endpoint')"

text \<open>\<^verbatim>\<open>response.ok\<close> of the requests library: false exactly on a status in 400..599.\<close>

definition ok :: "response \<Rightarrow> bool" where
  "ok r = (\<not> (400 \<le> status_code r \<and> status_code r < 600))"

definition response_json :: "response \<Rightarrow> py_exn + json" where
  "response_json r =
     (case body r of None \<Rightarrow> Inl (JSONDecodeError ''Expecting value'') | Some j \<Rightarrow> Inr j)"

definition relogin_msg :: string where
  "relogin_msg = ''HTTP 401 Unauthorized: Token may have expired. '' @
     ''Please run '' @ [CHR 0x27] @ ''yazio-exporter login'' @ [CHR 0x27] @
     '' again to refresh your authentication.''"

definition http_error_msg :: "int \<Rightarrow> string \<Rightarrow> string" where
  "http_error_msg status url = ''HTTP '' @ str_int status @ '' error for URL: '' @ url"

text \<open>
  The message of the 401 branch: the inner \<^verbatim>\<open>try\<close> reads the JSON body and looks for the keys
  \<^verbatim>\<open>error\<close> and \<^verbatim>\<open>message\<close> (\<^verbatim>\<open>or\<close> evaluates its right operand only when the left one is
  false); its handler catches \<^verbatim>\<open>ValueError\<close> and \<^verbatim>\<open>KeyError\<close> only, so any other exception
  of the body leaves the branch.
\<close>

definition unauthorized_try :: "string \<Rightarrow> response \<Rightarrow> py_exn + string" where
  "unauthorized_try url r =
     (case response_json r of
        Inl e \<Rightarrow> Inl e
      | Inr error_data \<Rightarrow>
          (case py_in ''error'' error_data of
             Inl e \<Rightarrow> Inl e
           | Inr True \<Rightarrow> Inr relogin_msg
           | Inr False \<Rightarrow>
               (case py_in ''message'' error_data of
                  Inl e \<Rightarrow> Inl e
                | Inr True \<Rightarrow> Inr relogin_msg
                | Inr False \<Rightarrow> Inr (http_error_msg 401 url))))"

definition unauthorized_msg :: "string \<Rightarrow> response \<Rightarrow> py_exn + string" where
  "unauthorized_msg url r =
     (case unauthorized_try url r of
        Inl e \<Rightarrow> (if is_ValueError e \<or> is_KeyError e then Inr relogin_msg else Inl e)
      | Inr msg \<Rightarrow> Inr msg)"

text \<open>
  The JSON values on which \<^verbatim>\<open>key in data\<close> is defined: dicts, lists and strings.
\<close>

fun is_container :: "json \<Rightarrow> bool" where
  "is_container (JObj _) = True"
| "is_container (JList _) = True"
| "is_container (JStr _) = True"
| "is_container _ = False"

text \<open>
  One iteration of the retry loop ends in a \<^verbatim>\<open>return\<close>, in a \<^verbatim>\<open>raise\<close> that leaves \<^verbatim>\<open>get\<close>,
  or in \<^verbatim>\<open>time.sleep(backoff_time); continue\<close>. \<open>try_body\<close> is the body of the outer
  \<^verbatim>\<open>try\<close>, \<open>except_clauses\<close> its three handlers in their order.
\<close>

datatype step = Return response | Raise py_exn | Sleep_Continue nat

definition try_body :: "string \<Rightarrow> int \<Rightarrow> nat \<Rightarrow> attempt_outcome \<Rightarrow> step" where
  "try_body url max_retries attempt out =
     (case out of
        Throws e \<Rightarrow> Raise e
      | Responds r \<Rightarrow>
          if status_code r = 401 then
            (case unauthorized_msg url r of
               Inl e \<Rightarrow> Raise e
             | Inr error_msg \<Rightarrow> Raise (AuthenticationError error_msg))
          else if 500 \<le> status_code r \<and> status_code r < 600 then
            (if int attempt < max_retries - 1 then Sleep_Continue (2 ^ attempt)
             else Raise (APIError (http_error_msg (status_code r) url)
                           (Some (status_code r)) (Some url)))
          else if \<not> ok r then
            Raise (APIError (http_error_msg (status_code r) url)
                     (Some (status_code r)) (Some url))
          else Return r)"

definition except_clauses :: "int \<Rightarrow> nat \<Rightarrow> step \<Rightarrow> step" where
  "except_clauses max_retries attempt s =
     (case s of
        Raise e \<Rightarrow>
          if is_Timeout e then Raise e
          else if is_AuthenticationError e \<or> is_APIError e then Raise e
          else if is_RequestException e then
            (if int attempt < max_retries - 1 then Sleep_Continue (2 ^ attempt)
             else Raise e)
          else Raise e
      | _ \<Rightarrow> s)"

text \<open>
  The loop \<^verbatim>\<open>for attempt in range(max_retries)\<close>. The result comes with the number of
  \<^verbatim>\<open>session.get\<close> calls made and the list of the sleeps, in seconds, in their order. A loop
  that runs out of attempts without returning or raising (only when \<^verbatim>\<open>max_retries\<close> is not
  positive) falls off the end of the function: Python's \<^verbatim>\<open>None\<close>.
\<close>

type_synonym get_result = "(py_exn + response option) \<times> nat \<times> nat list"

fun get_loop :: "string \<Rightarrow> int \<Rightarrow> (nat \<Rightarrow> attempt_outcome) \<Rightarrow> nat list \<Rightarrow> get_result" where
  "get_loop url max_retries sess [] = (Inr None, 0, [])"
| "get_loop url max_retries sess (attempt # rest) =
     (case except_clauses max_retries attempt
             (try_body url max_retries attempt (sess attempt)) of
        Return r \<Rightarrow> (Inr (Some r), 1, [])
      | Raise e \<Rightarrow> (Inl e, 1, [])
      | Sleep_Continue t \<Rightarrow>
          (case get_loop url max_retries sess rest of
             (res, n, sleeps) \<Rightarrow> (res, Suc n, t # sleeps)))"

definition get :: "client \<Rightarrow> string \<Rightarrow> int \<Rightarrow> get_result" where
  "get c endpoint max_retries =
     (let url = get_url c endpoint
      in get_loop url max_retries (session c url) [0..<nat max_retries])"


section \<open>The task executor (utils.py)\<close>

text \<open>
  \<^verbatim>\<open>fetch_concurrent(items, fetch_fn, max_workers)\<close>. A task function maps an identity to
  the value it returns (\<open>Inr\<close>) or to the exception it raises (\<open>Inl\<close>). A submitted future
  is the pair of its item (the entry of \<^verbatim>\<open>future_to_item\<close>) and its outcome. The order in
  which \<^verbatim>\<open>as_completed\<close> yields the futures is not determined by the program: it is the
  parameter \<open>as_completed\<close>, of which the theorems below assume only that it yields every
  submitted future exactly once. The two result dicts are association lists, written with
  Python's \<^verbatim>\<open>d[k] = v\<close> (\<open>AList.update\<close>: a present key keeps its position).

  \<open>collect\<close> is the loop over the completed futures: \<^verbatim>\<open>future.result()\<close> returns the
  value or re-raises the task's exception, and the handler \<^verbatim>\<open>except Exception\<close> stores
  what it catches; an exception it does not catch leaves the function.

  The result comes with the list of the items whose task was submitted to the pool, each
  of which the pool invokes \<open>fetch_fn\<close> on. The constructor of the pool refuses a worker
  count that is not positive with a \<^verbatim>\<open>ValueError\<close>, before anything is submitted.
\<close>

type_synonym ('k, 'v) future = "'k \<times> (py_exn + 'v)"

type_synonym ('k, 'v) batch = "('k \<times> 'v) list \<times> ('k \<times> py_exn) list"

fun collect :: "('k, 'v) future list \<Rightarrow> ('k, 'v) batch \<Rightarrow> py_exn + ('k, 'v) batch" where
  "collect [] (results, errors) = Inr (results, errors)"
| "collect ((item, Inr v) # futures) (results, errors) =
     collect futures (AList.update item v results, errors)"
| "collect ((item, Inl e) # futures) (results, errors) =
     (if is_Exception e then collect futures (results, AList.update item e errors)
      else Inl e)"

definition fetch_concurrent ::
  "(('k, 'v) future list \<Rightarrow> ('k, 'v) future list) \<Rightarrow> 'k list \<Rightarrow> ('k \<Rightarrow> py_exn + 'v) \<Rightarrow> int
     \<Rightarrow> (py_exn + ('k, 'v) batch) \<times> 'k list" where
  "fetch_concurrent as_completed items fetch_fn max_workers =
     (if items = [] then (Inr ([], []), [])
      else if max_workers \<le> 0 then
        (Inl (ValueError ''max_workers must be greater than 0''), [])
      else
        (let future_to_item = map (\<lambda>item. (item, fetch_fn item)) items
         in (collect (as_completed future_to_item) ([], []), items)))"

section \<open>The discovery scanner (export_days.py)\<close>

text \<open>
  The calendar of Python's standard library, as \<^verbatim>\<open>discover_month\<close> uses it:
  \<^verbatim>\<open>calendar.isleap\<close>, the table \<^verbatim>\<open>mdays\<close>, the day count of \<^verbatim>\<open>calendar.monthrange\<close>
  (its second component), the constructor \<^verbatim>\<open>date(year, month, day)\<close> with its range checks
  (years 1 to 9999), and \<^verbatim>\<open>strftime("%Y-%m-%d")\<close> with zero-padded fields (for a year below
  1000 the C library decides whether \<^verbatim>\<open>%Y\<close> is padded; the model pads it).
\<close>

definition isleap :: "int \<Rightarrow> bool" where
  "isleap year = (year mod 4 = 0 \<and> (year mod 100 \<noteq> 0 \<or> year mod 400 = 0))"

definition mdays :: "int list" where
  "mdays = [0, 31, 28, 31, 30, 31, 30, 31, 31, 30, 31, 30, 31]"

definition monthrange :: "int \<Rightarrow> int \<Rightarrow> py_exn + int" where
  "monthrange year month =
     (if \<not> (1 \<le> month \<and> month \<le> 12) then Inl (ValueError ''bad month number'')
      else Inr (mdays ! nat month + (if month = 2 \<and> isleap year then 1 else 0)))"

definition date :: "int \<Rightarrow> int \<Rightarrow> int \<Rightarrow> py_exn + (int \<times> int \<times> int)" where
  "date year month day =
     (if \<not> (1 \<le> year \<and> year \<le> 9999) then Inl (ValueError ''year is out of range'')
      else if \<not> (1 \<le> month \<and> month \<le> 12) then Inl (ValueError ''month must be in 1..12'')
      else case monthrange year month of
             Inl e \<Rightarrow> Inl e
           | Inr dim \<Rightarrow>
               if \<not> (1 \<le> day \<and> day \<le> dim) then Inl (ValueError ''day is out of range for month'')
               else Inr (year, month, day))"

definition zfill :: "nat \<Rightarrow> string \<Rightarrow> string" where
  "zfill width s = replicate (width - length s) (CHR ''0'') @ s"

definition strftime_ymd :: "int \<times> int \<times> int \<Rightarrow> string" where
  "strftime_ymd d =
     (case d of (year, month, day) \<Rightarrow>
        zfill 4 (str_int year) @ ''-'' @ zfill 2 (str_int month) @ ''-'' @ zfill 2 (str_int day))"

text \<open>
  \<^verbatim>\<open>response.json()\<close> on what \<^verbatim>\<open>client.get\<close> returned; on \<^verbatim>\<open>None\<close> the attribute lookup
  fails.
\<close>

definition json_of :: "response option \<Rightarrow> py_exn + json" where
  "json_of ro =
     (case ro of
        None \<Rightarrow> Inl (AttributeError ''NoneType object has no attribute json'')
      | Some r \<Rightarrow> response_json r)"

text \<open>
  The two statements \<^verbatim>\<open>response = client.get(endpoint)\<close> (with the default
  \<^verbatim>\<open>max_retries\<close>) and \<^verbatim>\<open>data = response.json()\<close>, with which \<^verbatim>\<open>discover_month\<close> and the
  per-date fetch functions begin.
\<close>

definition get_json :: "client \<Rightarrow> string \<Rightarrow> py_exn + json" where
  "get_json c endpoint =
     (case fst (get c endpoint MAX_RETRIES) of
        Inl e \<Rightarrow> Inl e
      | Inr response \<Rightarrow> json_of response)"

definition entry_dates :: "json \<Rightarrow> json list" where
  "entry_dates entry =
     (case entry of
        JObj kvs \<Rightarrow> (case map_of (dict_of kvs) ''date'' of Some v \<Rightarrow> [v] | None \<Rightarrow> [])
      | _ \<Rightarrow> [])"

definition extract_dates :: "json \<Rightarrow> json list" where
  "extract_dates data = (case data of JList entries \<Rightarrow> concat (map entry_dates entries) | _ \<Rightarrow> [])"

definition nutrients_daily_endpoint :: "string \<Rightarrow> string \<Rightarrow> string" where
  "nutrients_daily_endpoint start_date end_date =
     ''/user/consumed-items/nutrients-daily?start='' @ start_date @ ''&end='' @ end_date"

text \<open>
  \<^verbatim>\<open>discover_month(client, year, month)\<close>: the dates of the month that have data, together
  with the endpoints it passed to \<^verbatim>\<open>client.get\<close> (one, or none when a date could not be
  built). An exception of any step leaves the function.
\<close>

definition discover_month :: "client \<Rightarrow> int \<Rightarrow> int \<Rightarrow> (py_exn + json list) \<times> string list" where
  "discover_month c year month =
     (case date year month 1 of
        Inl e \<Rightarrow> (Inl e, [])
      | Inr first_day \<Rightarrow>
     (case monthrange year month of
        Inl e \<Rightarrow> (Inl e, [])
      | Inr last_day_num \<Rightarrow>
     (case date year month last_day_num of
        Inl e \<Rightarrow> (Inl e, [])
      | Inr last_day \<Rightarrow>
          (let start_date = strftime_ymd first_day;
               end_date = strftime_ymd last_day;
               endpoint = nutrients_daily_endpoint start_date end_date
           in case get_json c endpoint of
                Inl e \<Rightarrow> (Inl e, [endpoint])
              | Inr data \<Rightarrow> (Inr (extract_dates data), [endpoint])))))"

text \<open>
  \<^verbatim>\<open>auto_discover_months(client, start_year, start_month)\<close>; \<^verbatim>\<open>date.today()\<close> is the
  parameter \<open>(today_year, today_month)\<close>. \<open>scan_months\<close> is the \<^verbatim>\<open>while\<close> loop, on the state
  \<open>(current_year, current_month, all_dates)\<close> and the log of the endpoints queried so far;
  tuples compare lexicographically.
\<close>

function scan_months ::
  "client \<Rightarrow> int \<Rightarrow> int \<Rightarrow> int \<Rightarrow> int \<Rightarrow> json list \<Rightarrow> string list
     \<Rightarrow> (py_exn + json list) \<times> string list" where
  "scan_months c today_year today_month current_year current_month all_dates queried =
     (if current_year < today_year \<or> (current_year = today_year \<and> current_month \<le> today_month)
      then
        (case discover_month c current_year current_month of
           (Inl e, qs) \<Rightarrow> (Inl e, queried @ qs)
         | (Inr dates, qs) \<Rightarrow>
             (if current_month + 1 > 12
              then scan_months c today_year today_month (current_year + 1) 1
                     (if dates \<noteq> [] then all_dates @ dates else all_dates) (queried @ qs)
              else scan_months c today_year today_month current_year (current_month + 1)
                     (if dates \<noteq> [] then all_dates @ dates else all_dates) (queried @ qs)))
      else (Inr all_dates, queried))"
  by pat_completeness auto
termination
  by (relation "measures [\<lambda>(c, ty, tm, cy, cm, a, q). nat (ty + 1 - cy),
                          \<lambda>(c, ty, tm, cy, cm, a, q). nat (13 - cm)]") auto

declare scan_months.simps [simp del]

definition auto_discover_months ::
  "client \<Rightarrow> int \<times> int \<Rightarrow> int \<Rightarrow> int \<Rightarrow> (py_exn + json list) \<times> string list" where
  "auto_discover_months c today start_year start_month =
     scan_months c (fst today) (snd today) start_year start_month [] []"


subsection \<open>The calendar in the words of the specification\<close>

text \<open>
  What the scan is compared with. Calendar months are numbered consecutively, twelve to a
  year, so that the month after December of a year is January of the next;
  \<open>calendar_months start today\<close> lists every month from \<open>start\<close> through \<open>today\<close>, both
  included, in increasing order. \<open>days_in_month\<close> is the length of a month of the Gregorian
  calendar, and \<open>month_query\<close> the discovery endpoint whose range runs from the first to
  the last day of a month.
\<close>

definition month_index :: "int \<times> int \<Rightarrow> int" where
  "month_index ym = fst ym * 12 + (snd ym - 1)"

definition month_of_index :: "int \<Rightarrow> int \<times> int" where
  "month_of_index i = (i div 12, i mod 12 + 1)"

definition next_month :: "int \<times> int \<Rightarrow> int \<times> int" where
  "next_month ym = (if snd ym = 12 then (fst ym + 1, 1) else (fst ym, snd ym + 1))"

definition calendar_months :: "int \<times> int \<Rightarrow> int \<times> int \<Rightarrow> (int \<times> int) list" where
  "calendar_months start today = map month_of_index [month_index start..month_index today]"

definition days_in_month :: "int \<Rightarrow> int \<Rightarrow> int" where
  "days_in_month year month =
     (if month = 2 then
        (if year mod 400 = 0 then 29 else if year mod 100 = 0 then 28
         else if year mod 4 = 0 then 29 else 28)
      else if month = 4 \<or> month = 6 \<or> month = 9 \<or> month = 11 then 30
      else 31)"

definition month_query :: "int \<times> int \<Rightarrow> string" where
  "month_query ym =
     nutrients_daily_endpoint (strftime_ymd (fst ym, snd ym, 1))
       (strftime_ymd (fst ym, snd ym, days_in_month (fst ym) (snd ym)))"

section \<open>The task decomposer (export_days.py)\<close>

text \<open>
  The models of \<^verbatim>\<open>models.py\<close> that the per-date fetch functions build, with the fields in
  the order of their constructors' keyword arguments.
\<close>

datatype day_data =
    ConsumedItems json json json
  | Exercises json json json
  | DailySummary json json json json json json
  | Goals json
  | WaterIntake json json json

text \<open>
  Each fetch function calls \<^verbatim>\<open>client.get\<close> and decodes the body (\<open>get_json\<close>), then reads
  the fields with \<^verbatim>\<open>data.get\<close>; an exception of any step leaves the function.
\<close>

definition fetch_consumed :: "client \<Rightarrow> string \<Rightarrow> py_exn + day_data" where
  "fetch_consumed c d =
     (case get_json c (''/user/consumed-items?date='' @ d) of
        Inl e \<Rightarrow> Inl e
      | Inr data \<Rightarrow>
     (case py_get data ''products'' (JList []) of Inl e \<Rightarrow> Inl e | Inr products \<Rightarrow>
     (case py_get data ''recipe_portions'' (JList []) of Inl e \<Rightarrow> Inl e | Inr recipe_portions \<Rightarrow>
     (case py_get data ''simple_products'' (JList []) of Inl e \<Rightarrow> Inl e | Inr simple_products \<Rightarrow>
        Inr (ConsumedItems products recipe_portions simple_products)))))"

definition fetch_exercises :: "client \<Rightarrow> string \<Rightarrow> py_exn + day_data" where
  "fetch_exercises c d =
     (case get_json c (''/user/exercises?date='' @ d) of
        Inl e \<Rightarrow> Inl e
      | Inr data \<Rightarrow>
     (case py_get data ''training'' (JList []) of Inl e \<Rightarrow> Inl e | Inr training \<Rightarrow>
     (case py_get data ''custom_training'' (JList []) of Inl e \<Rightarrow> Inl e | Inr custom_training \<Rightarrow>
     (case py_get data ''activity'' JNull of Inl e \<Rightarrow> Inl e | Inr activity \<Rightarrow>
        Inr (Exercises training custom_training activity)))))"

definition fetch_daily_summary :: "client \<Rightarrow> string \<Rightarrow> py_exn + day_data" where
  "fetch_daily_summary c d =
     (case get_json c (''/user/widgets/daily-summary?date='' @ d) of
        Inl e \<Rightarrow> Inl e
      | Inr data \<Rightarrow>
     (case py_get data ''meals'' (JObj []) of Inl e \<Rightarrow> Inl e | Inr meals \<Rightarrow>
     (case py_get data ''activity_energy'' JNull of Inl e \<Rightarrow> Inl e | Inr activity_energy \<Rightarrow>
     (case py_get data ''steps'' JNull of Inl e \<Rightarrow> Inl e | Inr steps \<Rightarrow>
     (case py_get data ''water_intake'' JNull of Inl e \<Rightarrow> Inl e | Inr water_intake \<Rightarrow>
     (case py_get data ''goals'' (JObj []) of Inl e \<Rightarrow> Inl e | Inr goals \<Rightarrow>
     (case py_get data ''units'' (JObj []) of Inl e \<Rightarrow> Inl e | Inr units \<Rightarrow>
        Inr (DailySummary meals activity_energy steps water_intake goals units))))))))"

definition fetch_goals :: "client \<Rightarrow> string \<Rightarrow> py_exn + day_data" where
  "fetch_goals c d =
     (case get_json c (''/user/goals?date='' @ d) of
        Inl e \<Rightarrow> Inl e
      | Inr data \<Rightarrow> Inr (Goals data))"

definition fetch_water :: "client \<Rightarrow> string \<Rightarrow> py_exn + day_data" where
  "fetch_water c d =
     (case get_json c (''/user/water-intake?date='' @ d) of
        Inl e \<Rightarrow> Inl e
      | Inr data \<Rightarrow>
     (case py_get data ''water_intake'' (JNum 0) of Inl e \<Rightarrow> Inl e | Inr water_intake \<Rightarrow>
     (case py_get data ''gateway'' JNull of Inl e \<Rightarrow> Inl e | Inr gateway \<Rightarrow>
     (case py_get data ''source'' JNull of Inl e \<Rightarrow> Inl e | Inr source \<Rightarrow>
        Inr (WaterIntake water_intake gateway source)))))"

text \<open>The registry of \<^verbatim>\<open>fetch_days_concurrent\<close>, in the order of the dict literal.\<close>

definition fetch_functions :: "(string \<times> (client \<Rightarrow> string \<Rightarrow> py_exn + day_data)) list" where
  "fetch_functions =
     [(''consumed'', fetch_consumed),
      (''goals'', fetch_goals),
      (''exercises'', fetch_exercises),
      (''water'', fetch_water),
      (''daily_summary'', fetch_daily_summary),
      (''summary'', fetch_daily_summary)]"

text \<open>
  The message of the validation error: the unknown name, then Python's rendering of the
  list of the registry's keys.
\<close>

definition py_repr_str :: "string \<Rightarrow> string" where
  "py_repr_str s = [CHR 0x27] @ s @ [CHR 0x27]"

fun join :: "string \<Rightarrow> string list \<Rightarrow> string" where
  "join sep [] = []"
| "join sep [x] = x"
| "join sep (x # y # ys) = x @ sep @ join sep (y # ys)"

definition unknown_data_type_msg :: "string \<Rightarrow> string" where
  "unknown_data_type_msg dtype =
     ''Unknown data type: '' @ dtype @ ''. Must be one of ['' @
     join '', '' (map (py_repr_str \<circ> fst) fetch_functions) @ '']''"

text \<open>The validation loop: the first requested name outside the registry raises.\<close>

fun validate_data_types :: "string list \<Rightarrow> py_exn option" where
  "validate_data_types [] = None"
| "validate_data_types (dtype # rest) =
     (if map_of fetch_functions dtype = None
      then Some (ValueError (unknown_data_type_msg dtype))
      else validate_data_types rest)"

text \<open>
  The task function \<^verbatim>\<open>_fetch_task\<close>, and the two regrouping loops: \<^verbatim>\<open>results[d][dtype] = x\<close>
  looks \<^verbatim>\<open>results[d]\<close> up (a \<^verbatim>\<open>KeyError\<close> on a missing date) and writes into the inner
  dict. A value of the regrouped structure is the fetched model (\<open>Inr\<close>) or the captured
  exception object (\<open>Inl\<close>).
\<close>

definition fetch_task :: "client \<Rightarrow> string \<times> string \<Rightarrow> py_exn + day_data" where
  "fetch_task c task =
     (case task of (d, dtype) \<Rightarrow>
        (case map_of fetch_functions dtype of
           None \<Rightarrow> Inl (KeyError dtype)
         | Some f \<Rightarrow> f c d))"

type_synonym 'a by_date = "(string \<times> (string \<times> 'a) list) list"

fun regroup :: "((string \<times> string) \<times> 'a) list \<Rightarrow> 'a by_date \<Rightarrow> py_exn + 'a by_date" where
  "regroup [] results = Inr results"
| "regroup (((d, dtype), x) # rest) results =
     (case map_of results d of
        None \<Rightarrow> Inl (KeyError d)
      | Some inner \<Rightarrow> regroup rest (AList.update d (AList.update dtype x inner) results))"

definition fetch_days_concurrent ::
  "((string \<times> string, day_data) future list \<Rightarrow> (string \<times> string, day_data) future list)
     \<Rightarrow> client \<Rightarrow> string list \<Rightarrow> string list \<Rightarrow> int
     \<Rightarrow> (py_exn + (py_exn + day_data) by_date) \<times> (string \<times> string) list" where
  "fetch_days_concurrent as_completed c dates data_types max_workers =
     (let results = foldl (\<lambda>acc d. AList.update d [] acc) [] dates
      in case validate_data_types data_types of
           Some e \<Rightarrow> (Inl e, [])
         | None \<Rightarrow>
             (let tasks = concat (map (\<lambda>d. map (\<lambda>dtype. (d, dtype)) data_types) dates)
              in case fetch_concurrent as_completed tasks (fetch_task c) max_workers of
                   (Inl e, invoked) \<Rightarrow> (Inl e, invoked)
                 | (Inr (successes, errors), invoked) \<Rightarrow>
                     (case regroup (map (\<lambda>(k, v). (k, Inr v)) successes) results of
                        Inl e \<Rightarrow> (Inl e, invoked)
                      | Inr results' \<Rightarrow>
                          (regroup (map (\<lambda>(k, err). (k, Inl err)) errors) results',
                           invoked))))"

section \<open>The nutrient batch (export_nutrients.py)\<close>

text \<open>
  \<^verbatim>\<open>fetch_nutrient\<close>: an exception of \<^verbatim>\<open>client.get\<close> leaves the function; a body that does
  not decode (or a missing response object) and a body that is not a dict give the empty
  dict; otherwise the members whose value is not \<^verbatim>\<open>None\<close>.
\<close>

definition nutrient_endpoint :: "string \<Rightarrow> string \<Rightarrow> string \<Rightarrow> string" where
  "nutrient_endpoint nutrient_id start end' =
     ''/user/consumed-items/specific-nutrient-daily?start='' @ start @ ''&end='' @ end' @
     ''&nutrient='' @ nutrient_id"

definition fetch_nutrient ::
  "client \<Rightarrow> string \<Rightarrow> string \<Rightarrow> string \<Rightarrow> py_exn + (string \<times> json) list" where
  "fetch_nutrient c nutrient_id start end' =
     (case fst (get c (nutrient_endpoint nutrient_id start end') MAX_RETRIES) of
        Inl e \<Rightarrow> Inl e
      | Inr response \<Rightarrow>
          (case json_of response of
             Inl e \<Rightarrow> (if is_ValueError e \<or> is_AttributeError e then Inr [] else Inl e)
           | Inr data \<Rightarrow>
               (case data of
                  JObj kvs \<Rightarrow> Inr (filter (\<lambda>(k, v). v \<noteq> JNull) (dict_of kvs))
                | _ \<Rightarrow> Inr [])))"

text \<open>
  \<^verbatim>\<open>fetch_multiple\<close>: the successes are copied, then every key of the error dict is bound
  to the empty dict.
\<close>

definition fetch_multiple ::
  "((string, (string \<times> json) list) future list \<Rightarrow> (string, (string \<times> json) list) future list)
     \<Rightarrow> client \<Rightarrow> string list \<Rightarrow> string \<Rightarrow> string \<Rightarrow> int
     \<Rightarrow> py_exn + (string \<times> (string \<times> json) list) list" where
  "fetch_multiple as_completed c nutrients start end' max_workers =
     (case fst (fetch_concurrent as_completed nutrients
                  (\<lambda>n. fetch_nutrient c n start end') max_workers) of
        Inl e \<Rightarrow> Inl e
      | Inr (successes, errors) \<Rightarrow>
          Inr (foldl (\<lambda>results nutrient. AList.update nutrient [] results)
                 successes (map fst errors)))"


section \<open>Verification: the retry loop of the client\<close>

text \<open>
  While every attempt from \<open>a\<close> up to \<open>b\<close> ends in sleep-and-continue, the loop goes on to
  attempt \<open>b\<close>, one call and one sleep of \<open>2 ^ i\<close> seconds per skipped attempt \<open>i\<close>.
\<close>

lemma get_loop_skip:
  "\<forall>i. a \<le> i \<and> i < b \<longrightarrow>
      except_clauses mr i (try_body url mr i (sess i)) = Sleep_Continue (2 ^ i) \<Longrightarrow>
   a \<le> b \<Longrightarrow> b \<le> m \<Longrightarrow>
   get_loop url mr sess [a..<m] =
     (case get_loop url mr sess [b..<m] of
        (res, n, sleeps) \<Rightarrow> (res, (b - a) + n, map (\<lambda>i. 2 ^ i) [a..<b] @ sleeps))"
proof (induction "b - a" arbitrary: a)
  case 0
  then show ?case by (auto split: prod.splits)
next
  case (Suc k)
  then have ab: "a < b" and am: "a < m" by auto
  have step: "except_clauses mr a (try_body url mr a (sess a)) = Sleep_Continue (2 ^ a)"
    using Suc.prems(1) ab by auto
  have IH: "get_loop url mr sess [Suc a..<m] =
     (case get_loop url mr sess [b..<m] of
        (res, n, sleeps) \<Rightarrow> (res, (b - Suc a) + n, map (\<lambda>i. 2 ^ i) [Suc a..<b] @ sleeps))"
    using Suc.hyps(1)[of "Suc a"] Suc.hyps(2) Suc.prems ab by auto
  show ?case
    using ab am step IH
    by (auto simp: upt_conv_Cons split: prod.splits)
qed

lemma step_5xx:
  "500 \<le> status_code r \<Longrightarrow> status_code r < 600 \<Longrightarrow>
   except_clauses mr i (try_body url mr i (Responds r)) =
     (if int i < mr - 1 then Sleep_Continue (2 ^ i)
      else Raise (APIError (http_error_msg (status_code r) url) (Some (status_code r)) (Some url)))"
  by (simp add: except_clauses_def try_body_def)

lemma step_transport:
  "except_clauses mr i (try_body url mr i (Throws (RequestException m))) =
     (if int i < mr - 1 then Sleep_Continue (2 ^ i) else Raise (RequestException m))"
  by (simp add: except_clauses_def try_body_def)

lemma step_timeout:
  "except_clauses mr i (try_body url mr i (Throws (Timeout m))) = Raise (Timeout m)"
  by (simp add: except_clauses_def try_body_def)

lemma step_ok:
  "ok r \<Longrightarrow> except_clauses mr i (try_body url mr i (Responds r)) = Return r"
  by (auto simp: except_clauses_def try_body_def ok_def)

lemma get_loop_last:
  "k < m \<Longrightarrow> get_loop url mr sess [k..<m] =
     (case except_clauses mr k (try_body url mr k (sess k)) of
        Return r \<Rightarrow> (Inr (Some r), 1, [])
      | Raise e \<Rightarrow> (Inl e, 1, [])
      | Sleep_Continue t \<Rightarrow>
          (case get_loop url mr sess [Suc k..<m] of
             (res, n, sleeps) \<Rightarrow> (res, Suc n, t # sleeps)))"
  by (simp add: upt_conv_Cons)

lemma unauthorized_msg_container:
  assumes "case body r of None \<Rightarrow> True | Some j \<Rightarrow> is_container j"
  shows "unauthorized_msg url r =
     Inr (case body r of
            None \<Rightarrow> relogin_msg
          | Some j \<Rightarrow>
              if py_in ''error'' j = Inr True \<or> py_in ''message'' j = Inr True
              then relogin_msg else http_error_msg 401 url)"
proof (cases "body r")
  case None
  then show ?thesis
    by (simp add: unauthorized_msg_def unauthorized_try_def response_json_def)
next
  case (Some j)
  with assms have "is_container j" by simp
  then show ?thesis using Some
    by (cases j) (force simp: unauthorized_msg_def unauthorized_try_def response_json_def split: bool.splits)+
qed

text \<open>
  Claim C2. Let the first \<open>N\<close> calls of \<^verbatim>\<open>session.get\<close> answer with 5xx responses \<open>rs i\<close> and
  call \<open>N\<close> with a response that is \<^verbatim>\<open>ok\<close>. With \<^verbatim>\<open>max_retries = 3\<close>, \<^verbatim>\<open>get\<close> returns that
  response after exactly \<open>N + 1\<close> calls when \<open>N + 1 \<le> 3\<close>, having slept \<open>2 ^ a\<close> seconds after
  the failed attempt \<open>a\<close> (1 s, then 2 s); when \<open>N + 1 > 3\<close> it raises the \<open>APIError\<close> of the
  third response after exactly 3 calls and the sleeps of 1 s and 2 s.
\<close>

theorem get_retries_5xx:
  assumes fails: "\<forall>i<N. session c (get_url c endpoint) i = Responds (rs i)
                    \<and> 500 \<le> status_code (rs i) \<and> status_code (rs i) < 600"
    and succeeds: "session c (get_url c endpoint) N = Responds ok_r"
    and ok: "ok ok_r"
  shows "get c endpoint 3 =
     (if N + 1 \<le> 3 then (Inr (Some ok_r), N + 1, map (\<lambda>a. 2 ^ a) [0..<N])
      else (Inl (APIError (http_error_msg (status_code (rs 2)) (get_url c endpoint))
                   (Some (status_code (rs 2))) (Some (get_url c endpoint))), 3, [1, 2]))"
proof (cases "N + 1 \<le> 3")
  case True
  let ?url = "get_url c endpoint"
  let ?sess = "session c ?url"
  have skip: "\<forall>i. 0 \<le> i \<and> i < N \<longrightarrow>
      except_clauses 3 i (try_body ?url 3 i (?sess i)) = Sleep_Continue (2 ^ i)"
    using fails True by (auto simp: step_5xx)
  have "get_loop ?url 3 ?sess [0..<3] =
     (case get_loop ?url 3 ?sess [N..<3] of
        (res, n, sleeps) \<Rightarrow> (res, (N - 0) + n, map (\<lambda>i. 2 ^ i) [0..<N] @ sleeps))"
    using True by (intro get_loop_skip[OF skip]) auto
  moreover have "get_loop ?url 3 ?sess [N..<3] = (Inr (Some ok_r), 1, [])"
    using True succeeds ok by (simp add: get_loop_last step_ok)
  ultimately show ?thesis using True by (simp add: get_def Let_def)
next
  case False
  let ?url = "get_url c endpoint"
  let ?sess = "session c ?url"
  have skip: "\<forall>i. 0 \<le> i \<and> i < 2 \<longrightarrow>
      except_clauses 3 i (try_body ?url 3 i (?sess i)) = Sleep_Continue (2 ^ i)"
    using fails False by (auto simp: step_5xx)
  have "get_loop ?url 3 ?sess [0..<3] =
     (case get_loop ?url 3 ?sess [2..<3] of
        (res, n, sleeps) \<Rightarrow> (res, (2 - 0) + n, map (\<lambda>i. 2 ^ i) [0..<2] @ sleeps))"
    by (intro get_loop_skip[OF skip]) auto
  moreover have "get_loop ?url 3 ?sess [2..<3] =
     (Inl (APIError (http_error_msg (status_code (rs 2)) ?url)
                   (Some (status_code (rs 2))) (Some ?url)), 1, [])"
    using False fails by (simp add: get_loop_last step_5xx)
  moreover have "map (\<lambda>i. 2 ^ i) [0..<2] = [1, 2::nat]"
    by (simp add: upt_rec)
  ultimately show ?thesis using False by (simp add: get_def Let_def numeral_3_eq_3)
qed

theorem get_retries_5xx_witness:
  "get (YazioClient (\<lambda>url n. if n < 2 then Responds \<lparr>status_code = 503, body = None\<rparr>
                              else Responds \<lparr>status_code = 200, body = Some (JObj [(''success'', JBool True)])\<rparr>))
       ''/test'' 3
     = (Inr (Some \<lparr>status_code = 200, body = Some (JObj [(''success'', JBool True)])\<rparr>), 3, [1, 2])
   \<and> get (YazioClient (\<lambda>url n. if n < 3 then Responds \<lparr>status_code = 503, body = None\<rparr>
                              else Responds \<lparr>status_code = 200, body = None\<rparr>))
       ''/test'' 3
     = (Inl (APIError (http_error_msg 503 ''https://yzapi.yazio.com/v15/test'') (Some 503)
               (Some ''https://yzapi.yazio.com/v15/test'')), 3, [1, 2])"
  using get_retries_5xx [of 2 "YazioClient (\<lambda>url n. if n < 2 then Responds \<lparr>status_code = 503, body = None\<rparr>
                              else Responds \<lparr>status_code = 200, body = Some (JObj [(''success'', JBool True)])\<rparr>)"
       "''/test''" "\<lambda>_. \<lparr>status_code = 503, body = None\<rparr>"
       "\<lparr>status_code = 200, body = Some (JObj [(''success'', JBool True)])\<rparr>"]
    get_retries_5xx [of 3 "YazioClient (\<lambda>url n. if n < 3 then Responds \<lparr>status_code = 503, body = None\<rparr>
                              else Responds \<lparr>status_code = 200, body = None\<rparr>)"
       "''/test''" "\<lambda>_. \<lparr>status_code = 503, body = None\<rparr>"
       "\<lparr>status_code = 200, body = None\<rparr>"]
  by (simp add: YazioClient_def ok_def get_url_def BASE_URL_def API_VERSION_def upt_rec)

text \<open>
  Claim C5, as amended. When every attempt fails with a transport error that is not a
  timeout, \<^verbatim>\<open>get\<close> makes exactly \<^verbatim>\<open>max_retries\<close> calls, sleeps \<open>2 ^ a\<close> seconds after each
  failed attempt \<open>a\<close> but the last, and then re-raises the transport exception of the last
  attempt unchanged: no \<open>APIError\<close> is built, and nothing adds a status code or the URL.
\<close>

theorem get_transport_exhausted:
  assumes pos: "0 < max_retries"
    and fails: "\<forall>i. int i < max_retries \<longrightarrow>
                  session c (get_url c endpoint) i = Throws (RequestException (msgs i))"
  shows "get c endpoint max_retries =
     (Inl (RequestException (msgs (nat max_retries - 1))), nat max_retries,
      map (\<lambda>a. 2 ^ a) [0..<nat max_retries - 1])"
proof -
  let ?url = "get_url c endpoint"
  let ?sess = "session c ?url"
  let ?m = "nat max_retries"
  let ?k = "?m - 1"
  have km: "?k < ?m" using pos by simp
  have skip: "\<forall>i. 0 \<le> i \<and> i < ?k \<longrightarrow>
      except_clauses max_retries i (try_body ?url max_retries i (?sess i)) = Sleep_Continue (2 ^ i)"
  proof (intro allI impI)
    fix i assume "0 \<le> i \<and> i < ?k"
    then have lt: "int i < max_retries - 1" by linarith
    then have "?sess i = Throws (RequestException (msgs i))" using fails by simp
    then show "except_clauses max_retries i (try_body ?url max_retries i (?sess i))
                 = Sleep_Continue (2 ^ i)"
      using lt by (simp add: step_transport)
  qed
  have "get_loop ?url max_retries ?sess [0..<?m] =
     (case get_loop ?url max_retries ?sess [?k..<?m] of
        (res, n, sleeps) \<Rightarrow> (res, (?k - 0) + n, map (\<lambda>i. 2 ^ i) [0..<?k] @ sleeps))"
    using km by (intro get_loop_skip[OF skip]) auto
  moreover have "?sess ?k = Throws (RequestException (msgs ?k))"
    using fails pos by simp
  then have "get_loop ?url max_retries ?sess [?k..<?m] = (Inl (RequestException (msgs ?k)), 1, [])"
    using km pos by (simp add: get_loop_last step_transport)
  ultimately show ?thesis using pos by (simp add: get_def Let_def)
qed

theorem get_transport_exhausted_witness:
  "get (YazioClient (\<lambda>url n. Throws (RequestException ''Connection reset by peer''))) ''/test'' 3
     = (Inl (RequestException ''Connection reset by peer''), 3, [1, 2])"
  using get_transport_exhausted [of 3 "YazioClient (\<lambda>url n. Throws (RequestException ''Connection reset by peer''))"
          "''/test''" "\<lambda>_. ''Connection reset by peer''"]
  by (simp add: upt_rec YazioClient_def)

text \<open>
  Counterexample to claim C5 as stated: with three connection resets the caller receives
  the \<^verbatim>\<open>RequestException\<close> itself, which is not an \<open>APIError\<close>.
\<close>

theorem get_transport_not_APIError:
  "fst (get (YazioClient (\<lambda>url n. Throws (RequestException ''Connection reset by peer''))) ''/test'' 3)
     = Inl (RequestException ''Connection reset by peer'')
   \<and> \<not> is_APIError (RequestException ''Connection reset by peer'')"
  by (simp add: get_def YazioClient_def upt_rec except_clauses_def try_body_def)

text \<open>
  Claim C6, as amended. A 401 response on the first attempt whose body is not parseable
  JSON, or is a JSON object, array or string, makes \<^verbatim>\<open>get\<close> raise \<open>AuthenticationError\<close> after
  that one call, without sleeping or retrying. The message is the instruction to log in
  again when the body does not parse or mentions \<^verbatim>\<open>error\<close> or \<^verbatim>\<open>message\<close>; otherwise it is
  the generic \<^verbatim>\<open>HTTP 401 error for URL: ...\<close>.
\<close>

theorem get_unauthorized:
  assumes first: "session c (get_url c endpoint) 0 = Responds r"
    and unauthorized: "status_code r = 401"
    and pos: "0 < max_retries"
    and shape: "case body r of None \<Rightarrow> True | Some j \<Rightarrow> is_container j"
  shows "get c endpoint max_retries =
     (Inl (AuthenticationError
             (case body r of
                None \<Rightarrow> relogin_msg
              | Some j \<Rightarrow>
                  if py_in ''error'' j = Inr True \<or> py_in ''message'' j = Inr True
                  then relogin_msg else http_error_msg 401 (get_url c endpoint))), 1, [])"
proof -
  let ?url = "get_url c endpoint"
  have "0 < nat max_retries" using pos by simp
  then have "get_loop ?url max_retries (session c ?url) [0..<nat max_retries] =
     (case except_clauses max_retries 0 (try_body ?url max_retries 0 (Responds r)) of
        Return r \<Rightarrow> (Inr (Some r), 1, [])
      | Raise e \<Rightarrow> (Inl e, 1, [])
      | Sleep_Continue t \<Rightarrow>
          (case get_loop ?url max_retries (session c ?url) [Suc 0..<nat max_retries] of
             (res, n, sleeps) \<Rightarrow> (res, Suc n, t # sleeps)))"
    using first by (simp add: get_loop_last)
  moreover have "except_clauses max_retries 0 (try_body ?url max_retries 0 (Responds r)) =
     Raise (AuthenticationError
             (case body r of
                None \<Rightarrow> relogin_msg
              | Some j \<Rightarrow>
                  if py_in ''error'' j = Inr True \<or> py_in ''message'' j = Inr True
                  then relogin_msg else http_error_msg 401 ?url))"
    using unauthorized unauthorized_msg_container[OF shape, of ?url]
    by (simp add: try_body_def except_clauses_def)
  ultimately show ?thesis by (simp add: get_def Let_def)
qed

theorem get_unauthorized_witness:
  "get (YazioClient (\<lambda>url n. Responds \<lparr>status_code = 401, body = None\<rparr>)) ''/user'' 3
     = (Inl (AuthenticationError relogin_msg), 1, [])"
  using get_unauthorized [of "YazioClient (\<lambda>url n. Responds \<lparr>status_code = 401, body = None\<rparr>)"
          "''/user''" "\<lparr>status_code = 401, body = None\<rparr>" 3]
  by (simp add: YazioClient_def)

text \<open>
  Counterexample to claim C6 as stated: a 401 whose JSON body has neither an \<^verbatim>\<open>error\<close> nor a
  \<^verbatim>\<open>message\<close> member raises an \<open>AuthenticationError\<close> whose message names the status and the
  URL only; it says nothing about logging in again or an expired token.
\<close>

theorem get_unauthorized_generic_message:
  "get (YazioClient (\<lambda>url n. Responds \<lparr>status_code = 401,
                                        body = Some (JObj [(''detail'', JStr ''Unauthorized'')])\<rparr>))
       ''/user'' 3
     = (Inl (AuthenticationError ''HTTP 401 error for URL: https://yzapi.yazio.com/v15/user''), 1, [])
   \<and> \<not> str_contains ''login'' ''HTTP 401 error for URL: https://yzapi.yazio.com/v15/user''
   \<and> \<not> str_contains ''expired'' ''HTTP 401 error for URL: https://yzapi.yazio.com/v15/user''"
  by code_simp

text \<open>The instruction of the 401 branch does name the login command and the expiry.\<close>

lemma relogin_msg_instructs:
  "str_contains ''login'' relogin_msg \<and> str_contains ''expired'' relogin_msg"
  by code_simp

text \<open>
  Outside the amended claim: on a 401 whose body is a JSON scalar the membership test
  raises \<^verbatim>\<open>TypeError\<close>, which no handler of \<^verbatim>\<open>get\<close> catches.
\<close>

lemma get_unauthorized_scalar_body:
  "get (YazioClient (\<lambda>url n. Responds \<lparr>status_code = 401, body = Some JNull\<rparr>)) ''/user'' 3
     = (Inl (TypeError ''argument is not iterable''), 1, [])"
  by code_simp

text \<open>
  Claim C8. Let attempt \<open>k\<close> of a \<^verbatim>\<open>get\<close> (within \<^verbatim>\<open>max_retries\<close>, after \<open>k\<close> attempts that
  failed with a 5xx response or a transport error) raise \<^verbatim>\<open>requests.Timeout\<close>. Then \<^verbatim>\<open>get\<close>
  raises that same exception; the timed-out call is the last one (calls \<open>k + 1\<close>), and the
  only sleeps are those of the \<open>k\<close> earlier failures: none follows the timeout.
\<close>

theorem get_timeout_immediate:
  assumes before: "\<forall>i<k. (\<exists>r. session c (get_url c endpoint) i = Responds r
                                \<and> 500 \<le> status_code r \<and> status_code r < 600)
                         \<or> (\<exists>m. session c (get_url c endpoint) i = Throws (RequestException m))"
    and timeout: "session c (get_url c endpoint) k = Throws (Timeout msg)"
    and in_range: "int k < max_retries"
  shows "get c endpoint max_retries = (Inl (Timeout msg), k + 1, map (\<lambda>a. 2 ^ a) [0..<k])"
proof -
  let ?url = "get_url c endpoint"
  let ?sess = "session c ?url"
  let ?m = "nat max_retries"
  have km: "k < ?m" using in_range by simp
  have skip: "\<forall>i. 0 \<le> i \<and> i < k \<longrightarrow>
      except_clauses max_retries i (try_body ?url max_retries i (?sess i)) = Sleep_Continue (2 ^ i)"
  proof (intro allI impI)
    fix i assume "0 \<le> i \<and> i < k"
    then have ik: "i < k" by simp
    then have lt: "int i < max_retries - 1" using in_range by simp
    from before ik consider
      r where "?sess i = Responds r" "500 \<le> status_code r" "status_code r < 600"
      | m where "?sess i = Throws (RequestException m)"
      by blast
    then show "except_clauses max_retries i (try_body ?url max_retries i (?sess i))
                 = Sleep_Continue (2 ^ i)"
      using lt by cases (simp_all add: step_5xx step_transport)
  qed
  have "get_loop ?url max_retries ?sess [0..<?m] =
     (case get_loop ?url max_retries ?sess [k..<?m] of
        (res, n, sleeps) \<Rightarrow> (res, (k - 0) + n, map (\<lambda>i. 2 ^ i) [0..<k] @ sleeps))"
    using km by (intro get_loop_skip[OF skip]) auto
  moreover have "get_loop ?url max_retries ?sess [k..<?m] = (Inl (Timeout msg), 1, [])"
    using km timeout by (simp add: get_loop_last step_timeout)
  ultimately show ?thesis by (simp add: get_def Let_def)
qed

theorem get_timeout_immediate_witness:
  "get (YazioClient (\<lambda>url n. if n < 1 then Responds \<lparr>status_code = 503, body = None\<rparr>
                              else Throws (Timeout ''Request timed out after 30 seconds'')))
       ''/hanging'' 3
     = (Inl (Timeout ''Request timed out after 30 seconds''), 2, [1])
   \<and> get (YazioClient (\<lambda>url n. Throws (Timeout ''Request timed out after 30 seconds'')))
       ''/hanging'' 3
     = (Inl (Timeout ''Request timed out after 30 seconds''), 1, [])"
  using get_timeout_immediate [of 1 "YazioClient (\<lambda>url n. if n < 1 then Responds \<lparr>status_code = 503, body = None\<rparr>
                              else Throws (Timeout ''Request timed out after 30 seconds''))"
          "''/hanging''" "''Request timed out after 30 seconds''" 3]
        get_timeout_immediate [of 0 "YazioClient (\<lambda>url n. Throws (Timeout ''Request timed out after 30 seconds''))"
          "''/hanging''" "''Request timed out after 30 seconds''" 3]
  by (simp add: YazioClient_def upt_rec)


section \<open>Verification: the task executor\<close>

text \<open>
  The collecting loop, for futures that hold the outcomes of one task function \<open>f\<close>: what
  the two dicts bind afterwards, that their keys stay unique, and that the loop returns
  when every raised exception is an \<^verbatim>\<open>Exception\<close>.
\<close>

lemma collect_map_of:
  "collect fs (r, e) = Inr (r', e') \<Longrightarrow> \<forall>p \<in> set fs. snd p = f (fst p) \<Longrightarrow>
   map_of r' k = (if k \<in> fst ` set fs
                  then (case f k of Inr v \<Rightarrow> Some v | Inl x \<Rightarrow> map_of r k) else map_of r k)
   \<and> map_of e' k = (if k \<in> fst ` set fs
                  then (case f k of Inl x \<Rightarrow> Some x | Inr v \<Rightarrow> map_of e k) else map_of e k)"
proof (induction fs "(r, e)" arbitrary: r e rule: collect.induct)
  case (1 results errors)
  then show ?case by simp
next
  case (2 item v futures results errors)
  then show ?case
    by (auto simp: update_conv' split: sum.splits)
next
  case (3 item x futures results errors)
  then show ?case
    by (auto simp: update_conv' split: sum.splits if_splits)
qed

lemma collect_distinct:
  "collect fs (r, e) = Inr (r', e') \<Longrightarrow> distinct (map fst r) \<Longrightarrow> distinct (map fst e) \<Longrightarrow>
   distinct (map fst r') \<and> distinct (map fst e')"
proof (induction fs "(r, e)" arbitrary: r e rule: collect.induct)
  case (1 results errors)
  then show ?case by simp
next
  case (2 item v futures results errors)
  then show ?case by (simp add: distinct_update)
next
  case (3 item x futures results errors)
  then show ?case by (simp add: distinct_update split: if_splits)
qed

lemma collect_returns:
  "\<forall>p \<in> set fs. \<forall>x. snd p = Inl x \<longrightarrow> is_Exception x \<Longrightarrow> \<exists>r' e'. collect fs (r, e) = Inr (r', e')"
proof (induction fs "(r, e)" arbitrary: r e rule: collect.induct)
  case (1 results errors)
  then show ?case by simp
next
  case (2 item v futures results errors)
  then show ?case by simp
next
  case (3 item x futures results errors)
  then show ?case by simp
qed

text \<open>
  The batch in closed form, for any completion order: an item is bound in the success
  dict to the value its task returned, or in the error dict to the exception it raised.
\<close>

lemma fetch_concurrent_Inr:
  assumes perm: "\<forall>fs. mset (as_completed fs) = mset fs"
    and res: "fst (fetch_concurrent as_completed items f w) = Inr (succ, errs)"
  shows "map_of succ k = (if k \<in> set items then (case f k of Inr v \<Rightarrow> Some v | Inl x \<Rightarrow> None) else None)
       \<and> map_of errs k = (if k \<in> set items then (case f k of Inl x \<Rightarrow> Some x | Inr v \<Rightarrow> None) else None)
       \<and> distinct (map fst succ) \<and> distinct (map fst errs)"
proof (cases "items = []")
  case True
  with res show ?thesis by (simp add: fetch_concurrent_def)
next
  case False
  let ?F = "map (\<lambda>item. (item, f item)) items"
  from res False have w: "0 < w"
    by (auto simp: fetch_concurrent_def split: if_splits)
  with res False have col: "collect (as_completed ?F) ([], []) = Inr (succ, errs)"
    by (simp add: fetch_concurrent_def Let_def)
  have set_eq: "set (as_completed ?F) = set ?F"
    using perm by (metis mset_eq_setD)
  have cons: "\<forall>p \<in> set (as_completed ?F). snd p = f (fst p)"
    unfolding set_eq by auto
  have keys: "fst ` set (as_completed ?F) = set items"
    unfolding set_eq by force
  show ?thesis
    using collect_map_of[OF col cons, of k] collect_distinct[OF col]
    by (simp add: keys split: sum.splits)
qed

lemma fetch_concurrent_returns:
  assumes perm: "\<forall>fs. mset (as_completed fs) = mset fs"
    and w: "0 < w"
    and exns: "\<forall>i \<in> set items. \<forall>e. f i = Inl e \<longrightarrow> is_Exception e"
  shows "\<exists>succ errs. fetch_concurrent as_completed items f w = (Inr (succ, errs), items)"
proof (cases "items = []")
  case True
  then show ?thesis by (simp add: fetch_concurrent_def)
next
  case False
  let ?F = "map (\<lambda>item. (item, f item)) items"
  have set_eq: "set (as_completed ?F) = set ?F"
    using perm by (metis mset_eq_setD)
  have "\<forall>p \<in> set (as_completed ?F). \<forall>x. snd p = Inl x \<longrightarrow> is_Exception x"
    unfolding set_eq using exns by auto
  from collect_returns[OF this, of "[]" "[]"] show ?thesis
    using False w by (auto simp: fetch_concurrent_def Let_def)
qed

lemma keys_of_batch:
  assumes perm: "\<forall>fs. mset (as_completed fs) = mset fs"
    and res: "fst (fetch_concurrent as_completed items f w) = Inr (succ, errs)"
  shows "fst ` set succ = {k \<in> set items. \<exists>v. f k = Inr v}"
    and "fst ` set errs = {k \<in> set items. \<exists>x. f k = Inl x}"
proof -
  have s: "(map_of succ k \<noteq> None) = (k \<in> set items \<and> (\<exists>v. f k = Inr v))" for k
    using fetch_concurrent_Inr[OF perm res, of k] by (cases "f k") auto
  have e: "(map_of errs k \<noteq> None) = (k \<in> set items \<and> (\<exists>x. f k = Inl x))" for k
    using fetch_concurrent_Inr[OF perm res, of k] by (cases "f k") auto
  have "dom (map_of succ) = {k \<in> set items. \<exists>v. f k = Inr v}"
    unfolding dom_def using s by blast
  then show "fst ` set succ = {k \<in> set items. \<exists>v. f k = Inr v}"
    by (simp add: dom_map_of_conv_image_fst)
  have "dom (map_of errs) = {k \<in> set items. \<exists>x. f k = Inl x}"
    unfolding dom_def using e by blast
  then show "fst ` set errs = {k \<in> set items. \<exists>x. f k = Inl x}"
    by (simp add: dom_map_of_conv_image_fst)
qed

text \<open>
  Claim C1. For pairwise-distinct identities, any task function and any completion order:
  \<^verbatim>\<open>fetch_concurrent\<close> returns its two dicts whenever the worker count is positive and no
  task exits with something outside \<^verbatim>\<open>Exception\<close>, and whatever pair of dicts it returns
  has \<open>len(successes) + len(errors) = len(items)\<close>, disjoint key sets, and every identity
  in exactly one of the two.
\<close>

theorem fetch_concurrent_accounts_for_every_item:
  assumes distinct_items: "distinct items"
    and perm: "\<forall>fs. mset (as_completed fs) = mset fs"
  shows "(0 < max_workers \<and> (\<forall>i \<in> set items. \<forall>e. fetch_fn i = Inl e \<longrightarrow> is_Exception e)
            \<longrightarrow> (\<exists>successes errors.
                   fst (fetch_concurrent as_completed items fetch_fn max_workers)
                     = Inr (successes, errors)))
       \<and> (\<forall>successes errors.
            fst (fetch_concurrent as_completed items fetch_fn max_workers) = Inr (successes, errors)
            \<longrightarrow> distinct (map fst successes) \<and> distinct (map fst errors)
              \<and> length successes + length errors = length items
              \<and> fst ` set successes \<inter> fst ` set errors = {}
              \<and> fst ` set successes \<union> fst ` set errors = set items
              \<and> (\<forall>i \<in> set items. (i \<in> fst ` set successes) \<noteq> (i \<in> fst ` set errors)))"
proof (intro conjI allI impI)
  assume "0 < max_workers \<and> (\<forall>i \<in> set items. \<forall>e. fetch_fn i = Inl e \<longrightarrow> is_Exception e)"
  then show "\<exists>successes errors.
      fst (fetch_concurrent as_completed items fetch_fn max_workers) = Inr (successes, errors)"
    using fetch_concurrent_returns[OF perm, of max_workers items fetch_fn] by auto
next
  fix successes errors
  assume res: "fst (fetch_concurrent as_completed items fetch_fn max_workers)
                 = Inr (successes, errors)"
  let ?S = "{k \<in> set items. \<exists>v. fetch_fn k = Inr v}"
  let ?E = "{k \<in> set items. \<exists>x. fetch_fn k = Inl x}"
  have ks: "fst ` set successes = ?S" and ke: "fst ` set errors = ?E"
    using keys_of_batch[OF perm res] by auto
  have d: "distinct (map fst successes)" "distinct (map fst errors)"
    using fetch_concurrent_Inr[OF perm res] by auto
  show "distinct (map fst successes)" by (rule d)
  show "distinct (map fst errors)" by (rule d)
  show disj: "fst ` set successes \<inter> fst ` set errors = {}"
    unfolding ks ke by auto
  show un: "fst ` set successes \<union> fst ` set errors = set items"
    unfolding ks ke by (auto intro: sum.exhaust[of "fetch_fn _"])
  have "length successes = card (fst ` set successes)"
    using distinct_card[OF d(1)] by simp
  moreover have "length errors = card (fst ` set errors)"
    using distinct_card[OF d(2)] by simp
  moreover have "card (fst ` set successes) + card (fst ` set errors)
                   = card (fst ` set successes \<union> fst ` set errors)"
    using disj by (simp add: card_Un_disjoint)
  ultimately show "length successes + length errors = length items"
    using un distinct_card[OF distinct_items] by simp
  show "\<forall>i \<in> set items. (i \<in> fst ` set successes) \<noteq> (i \<in> fst ` set errors)"
    using disj un by blast
qed

theorem fetch_concurrent_accounts_for_every_item_witness:
  "fst (fetch_concurrent rev [''2024-01-01'', ''2024-01-02'', ''2024-01-03'']
          (\<lambda>d. if d = ''2024-01-02'' then Inl (APIError ''HTTP 500'' (Some 500) None)
                else Inr (length d)) 10)
     = Inr ([(''2024-01-03'', 10), (''2024-01-01'', 10)],
            [(''2024-01-02'', APIError ''HTTP 500'' (Some 500) None)])
   \<and> length [(''2024-01-03'', 10::nat), (''2024-01-01'', 10)]
       + length [(''2024-01-02'', APIError ''HTTP 500'' (Some 500) None)]
     = length [''2024-01-01'', ''2024-01-02'', ''2024-01-03'']
   \<and> fst ` set [(''2024-01-03'', 10::nat), (''2024-01-01'', 10)]
       \<inter> fst ` set [(''2024-01-02'', APIError ''HTTP 500'' (Some 500) None)] = {}"
proof -
  let ?items = "[''2024-01-01'', ''2024-01-02'', ''2024-01-03'']"
  let ?f = "\<lambda>d. if d = ''2024-01-02'' then Inl (APIError ''HTTP 500'' (Some 500) None)
                else Inr (length d)"
  have d: "distinct ?items" by simp
  have p: "\<forall>fs :: (string, nat) future list. mset (rev fs) = mset fs" by simp
  have r: "fst (fetch_concurrent rev ?items ?f 10)
     = Inr ([(''2024-01-03'', 10), (''2024-01-01'', 10)],
            [(''2024-01-02'', APIError ''HTTP 500'' (Some 500) None)])"
    by (simp add: fetch_concurrent_def)
  from fetch_concurrent_accounts_for_every_item[OF d p, of 10 ?f] r
  show ?thesis by blast
qed

text \<open>
  Claim C4. An exception raised by the task of an identity is caught and stored under
  that identity in the error dict: the batch returns to its caller (for a positive worker
  count and tasks that raise instances of \<^verbatim>\<open>Exception\<close>), every task has been submitted,
  and in every returned batch each identity is bound to its own outcome, the raised
  exception in the error dict or the returned value in the success dict, whatever the
  other tasks did.
\<close>

theorem fetch_concurrent_isolates_failures:
  assumes perm: "\<forall>fs. mset (as_completed fs) = mset fs"
  shows "(0 < max_workers \<and> (\<forall>i \<in> set items. \<forall>e. fetch_fn i = Inl e \<longrightarrow> is_Exception e)
            \<longrightarrow> (\<exists>successes errors.
                   fetch_concurrent as_completed items fetch_fn max_workers
                     = (Inr (successes, errors), items)))
       \<and> (\<forall>successes errors.
            fst (fetch_concurrent as_completed items fetch_fn max_workers) = Inr (successes, errors)
            \<longrightarrow> (\<forall>i \<in> set items.
                   case fetch_fn i of
                     Inl e \<Rightarrow> map_of errors i = Some e \<and> map_of successes i = None
                   | Inr v \<Rightarrow> map_of successes i = Some v \<and> map_of errors i = None))"
proof (intro conjI allI impI ballI)
  assume "0 < max_workers \<and> (\<forall>i \<in> set items. \<forall>e. fetch_fn i = Inl e \<longrightarrow> is_Exception e)"
  then show "\<exists>successes errors.
      fetch_concurrent as_completed items fetch_fn max_workers = (Inr (successes, errors), items)"
    using fetch_concurrent_returns[OF perm, of max_workers items fetch_fn] by auto
next
  fix successes errors i
  assume res: "fst (fetch_concurrent as_completed items fetch_fn max_workers)
                 = Inr (successes, errors)"
    and i: "i \<in> set items"
  show "case fetch_fn i of
          Inl e \<Rightarrow> map_of errors i = Some e \<and> map_of successes i = None
        | Inr v \<Rightarrow> map_of successes i = Some v \<and> map_of errors i = None"
    using fetch_concurrent_Inr[OF perm res, of i] i by (simp split: sum.splits)
qed

theorem fetch_concurrent_isolates_failures_witness:
  "fetch_concurrent rev [''2024-01-01'', ''2024-01-02'', ''2024-01-03'']
          (\<lambda>d. if d = ''2024-01-02'' then Inl (AuthenticationError relogin_msg)
                else Inr (length d)) 10
     = (Inr ([(''2024-01-03'', 10), (''2024-01-01'', 10)],
             [(''2024-01-02'', AuthenticationError relogin_msg)]),
        [''2024-01-01'', ''2024-01-02'', ''2024-01-03''])
   \<and> map_of [(''2024-01-02'', AuthenticationError relogin_msg)] ''2024-01-02''
       = Some (AuthenticationError relogin_msg)
   \<and> map_of [(''2024-01-03'', 10::nat), (''2024-01-01'', 10)] ''2024-01-01'' = Some 10
   \<and> map_of [(''2024-01-03'', 10::nat), (''2024-01-01'', 10)] ''2024-01-03'' = Some 10"
proof -
  let ?items = "[''2024-01-01'', ''2024-01-02'', ''2024-01-03'']"
  let ?f = "\<lambda>d. if d = ''2024-01-02'' then Inl (AuthenticationError relogin_msg)
                else Inr (length d)"
  let ?S = "[(''2024-01-03'', 10::nat), (''2024-01-01'', 10)]"
  let ?E = "[(''2024-01-02'', AuthenticationError relogin_msg)]"
  have p: "\<forall>fs :: (string, nat) future list. mset (rev fs) = mset fs" by simp
  have r: "fetch_concurrent rev ?items ?f 10 = (Inr (?S, ?E), ?items)"
    by (simp add: fetch_concurrent_def)
  then have r1: "fst (fetch_concurrent rev ?items ?f 10) = Inr (?S, ?E)" by simp
  have "\<forall>i \<in> set ?items.
          case ?f i of
            Inl e \<Rightarrow> map_of ?E i = Some e \<and> map_of ?S i = None
          | Inr v \<Rightarrow> map_of ?S i = Some v \<and> map_of ?E i = None"
    using fetch_concurrent_isolates_failures[OF p, of 10 ?items ?f] r1 by blast
  then show ?thesis using r by simp
qed

text \<open>
  Claim C9. On the empty list \<^verbatim>\<open>fetch_concurrent\<close> returns two empty dicts, for every task
  function and worker count, and no task is submitted: \<open>fetch_fn\<close> is never invoked.
\<close>

theorem fetch_concurrent_empty:
  "fetch_concurrent as_completed [] fetch_fn max_workers = (Inr ([], []), [])"
  by (simp add: fetch_concurrent_def)

theorem fetch_concurrent_empty_witness:
  "fetch_concurrent rev ([] :: string list) (\<lambda>d. Inr (length d)) 10 = (Inr ([], []), [])"
  by (rule fetch_concurrent_empty)


section \<open>Verification: the discovery scanner\<close>

text \<open>
  The day count of \<^verbatim>\<open>calendar.monthrange\<close> is the length of the month in the Gregorian
  calendar, 29 days for February in leap years; so a month whose query answers is
  queried once, from its first to its last day.
\<close>

lemma month_cases:
  "1 \<le> (m::int) \<Longrightarrow> m \<le> 12 \<Longrightarrow>
   m = 1 \<or> m = 2 \<or> m = 3 \<or> m = 4 \<or> m = 5 \<or> m = 6 \<or> m = 7 \<or> m = 8 \<or> m = 9 \<or> m = 10
   \<or> m = 11 \<or> m = 12"
  by arith

lemma monthrange_days_in_month:
  assumes "1 \<le> month" "month \<le> 12"
  shows "monthrange year month = Inr (days_in_month year month)"
proof -
  have leap: "isleap year = (year mod 400 = 0 \<or> (year mod 100 \<noteq> 0 \<and> year mod 4 = 0))"
    unfolding isleap_def by presburger
  from month_cases[OF assms] show ?thesis
    by (elim disjE) (simp_all add: monthrange_def days_in_month_def mdays_def leap)
qed

lemma days_in_month_bounds:
  "28 \<le> days_in_month year month \<and> days_in_month year month \<le> 31"
  by (simp add: days_in_month_def)

lemma get_json_first_ok:
  assumes "session c (get_url c endpoint) 0 = Responds r" "ok r" "body r = Some j"
  shows "get_json c endpoint = Inr j"
proof -
  have "except_clauses 3 0 (try_body (get_url c endpoint) 3 0 (Responds r)) = Return r"
    using assms(2) by (auto simp: except_clauses_def try_body_def ok_def)
  moreover have "[0..<nat 3] = [0, 1, 2]"
    by (simp add: upt_rec)
  ultimately have "get c endpoint 3 = (Inr (Some r), 1, [])"
    using assms(1) by (simp add: get_def Let_def)
  then show ?thesis
    using assms(3) by (simp add: get_json_def MAX_RETRIES_def json_of_def response_json_def)
qed

lemma discover_month_answers:
  assumes "1 \<le> year" "year \<le> 9999" "1 \<le> month" "month \<le> 12"
    and "get_json c (month_query (year, month)) = Inr data"
  shows "discover_month c year month = (Inr (extract_dates data), [month_query (year, month)])"
proof -
  have mr: "monthrange year month = Inr (days_in_month year month)"
    using assms by (simp add: monthrange_days_in_month)
  have d1: "date year month 1 = Inr (year, month, 1)"
    using assms mr days_in_month_bounds[of year month] by (simp add: date_def)
  have d2: "date year month (days_in_month year month)
              = Inr (year, month, days_in_month year month)"
    using assms mr days_in_month_bounds[of year month] by (simp add: date_def)
  show ?thesis
    using assms(5) mr d1 d2
    by (simp add: discover_month_def month_query_def Let_def)
qed

text \<open>
  The list of calendar months starts at \<open>start\<close> and goes on from the month after it,
  December being followed by January of the next year; it is empty when \<open>start\<close> lies
  after \<open>today\<close>.
\<close>

lemma month_of_index_inverse:
  "1 \<le> snd ym \<Longrightarrow> snd ym \<le> 12 \<Longrightarrow> month_of_index (month_index ym) = ym"
  by (cases ym) (auto simp: month_of_index_def month_index_def)

lemma month_index_next:
  "1 \<le> snd ym \<Longrightarrow> snd ym \<le> 12 \<Longrightarrow> month_index (next_month ym) = month_index ym + 1"
  by (auto simp: month_index_def next_month_def)

lemma month_index_le:
  "1 \<le> cm \<Longrightarrow> cm \<le> 12 \<Longrightarrow> 1 \<le> tm \<Longrightarrow> tm \<le> 12 \<Longrightarrow>
   (month_index (cy, cm) \<le> month_index (ty, tm)) = (cy < ty \<or> (cy = ty \<and> cm \<le> tm))"
  by (auto simp: month_index_def)

lemma calendar_months_Cons:
  assumes "1 \<le> snd start" "snd start \<le> 12" "month_index start \<le> month_index today"
  shows "calendar_months start today = start # calendar_months (next_month start) today"
  using assms
  by (simp add: calendar_months_def upto_rec1 month_of_index_inverse month_index_next)

lemma calendar_months_Nil:
  "month_index today < month_index start \<Longrightarrow> calendar_months start today = []"
  by (simp add: calendar_months_def)

text \<open>The loop, from any month of the scan on, by induction on the number of months left.\<close>

lemma scan_months_all:
  assumes "n = nat (month_index (ty, tm) + 1 - month_index (cy, cm))"
    and "1 \<le> cy" "1 \<le> cm" "cm \<le> 12" "ty \<le> 9999" "1 \<le> tm" "tm \<le> 12"
    and "\<forall>ym \<in> set (calendar_months (cy, cm) (ty, tm)). get_json c (month_query ym) = Inr (data ym)"
  shows "scan_months c ty tm cy cm all_dates queried =
     (Inr (all_dates @ concat (map (\<lambda>ym. extract_dates (data ym)) (calendar_months (cy, cm) (ty, tm)))),
      queried @ map month_query (calendar_months (cy, cm) (ty, tm)))"
  using assms
proof (induction n arbitrary: cy cm all_dates queried)
  case 0
  then have after: "month_index (ty, tm) < month_index (cy, cm)" by simp
  then have ncond: "\<not> (cy < ty \<or> (cy = ty \<and> cm \<le> tm))"
    using 0 by (simp add: month_index_le[symmetric])
  have "scan_months c ty tm cy cm all_dates queried = (Inr all_dates, queried)"
    by (subst scan_months.simps) (simp only: ncond if_False)
  then show ?case
    using calendar_months_Nil[OF after] by simp
next
  case (Suc n)
  then have le: "month_index (cy, cm) \<le> month_index (ty, tm)" by simp
  then have cond: "cy < ty \<or> (cy = ty \<and> cm \<le> tm)"
    using Suc.prems by (simp add: month_index_le)
  then have cy: "cy \<le> 9999" using Suc.prems by auto
  let ?next = "next_month (cy, cm)"
  have months: "calendar_months (cy, cm) (ty, tm) = (cy, cm) # calendar_months ?next (ty, tm)"
    using Suc.prems le by (simp add: calendar_months_Cons)
  then have here: "get_json c (month_query (cy, cm)) = Inr (data (cy, cm))"
    using Suc.prems by simp
  have dm: "discover_month c cy cm
              = (Inr (extract_dates (data (cy, cm))), [month_query (cy, cm)])"
    using Suc.prems cy here by (simp add: discover_month_answers)
  have n: "n = nat (month_index (ty, tm) + 1 - month_index (fst ?next, snd ?next))"
    using Suc.prems month_index_next[of "(cy, cm)"] by simp
  have rest: "\<forall>ym \<in> set (calendar_months (fst ?next, snd ?next) (ty, tm)).
                get_json c (month_query ym) = Inr (data ym)"
    using Suc.prems months by simp
  have valid: "1 \<le> fst ?next" "1 \<le> snd ?next" "snd ?next \<le> 12"
    using Suc.prems by (auto simp: next_month_def)
  note IH = Suc.IH[OF n valid Suc.prems(5,6,7) rest]
  have unfold: "scan_months c ty tm cy cm all_dates queried =
     (if cm + 1 > 12
      then scan_months c ty tm (cy + 1) 1
             (if extract_dates (data (cy, cm)) \<noteq> []
              then all_dates @ extract_dates (data (cy, cm)) else all_dates)
             (queried @ [month_query (cy, cm)])
      else scan_months c ty tm cy (cm + 1)
             (if extract_dates (data (cy, cm)) \<noteq> []
              then all_dates @ extract_dates (data (cy, cm)) else all_dates)
             (queried @ [month_query (cy, cm)]))"
    by (subst scan_months.simps) (simp only: cond if_True dm prod.case sum.case)
  have acc: "(if extract_dates (data (cy, cm)) \<noteq> []
              then all_dates @ extract_dates (data (cy, cm)) else all_dates)
             = all_dates @ extract_dates (data (cy, cm))"
    by simp
  show ?case
  proof (cases "cm = 12")
    case True
    then have nx: "?next = (cy + 1, 1)" by (simp add: next_month_def)
    show ?thesis
      using True months nx IH[of "all_dates @ extract_dates (data (cy, cm))"
                                "queried @ [month_query (cy, cm)]"]
      unfolding unfold acc by simp
  next
    case False
    then have nx: "?next = (cy, cm + 1)" by (simp add: next_month_def)
    have "\<not> cm + 1 > 12" using False Suc.prems by simp
    then show ?thesis
      using False months nx IH[of "all_dates @ extract_dates (data (cy, cm))"
                                 "queried @ [month_query (cy, cm)]"]
      unfolding unfold acc by simp
  qed
qed

text \<open>
  Claim C3. Let the start be a valid month and \<open>today\<close> a valid date, and let the query of
  every month from the start month through the current month answer with a JSON document
  \<open>data ym\<close>. Then \<^verbatim>\<open>auto_discover_months\<close> issues exactly the queries of these months, one
  each, in calendar order (December followed by January of the next year), each ranging
  from the first to the last day of its month, whether or not earlier months had data; the
  returned list is the concatenation, in that order, of the dates of each answer. A query
  is one call of \<^verbatim>\<open>client.get\<close>, whose retries are its own.
\<close>

theorem auto_discover_months_scans_every_month:
  assumes start: "1 \<le> start_year" "1 \<le> start_month" "start_month \<le> 12"
    and today: "today_year \<le> 9999" "1 \<le> today_month" "today_month \<le> 12"
    and answers: "\<forall>ym \<in> set (calendar_months (start_year, start_month) (today_year, today_month)).
                    get_json c (month_query ym) = Inr (data ym)"
  shows "auto_discover_months c (today_year, today_month) start_year start_month =
     (Inr (concat (map (\<lambda>ym. extract_dates (data ym))
                     (calendar_months (start_year, start_month) (today_year, today_month)))),
      map month_query (calendar_months (start_year, start_month) (today_year, today_month)))"
  using scan_months_all[OF refl start today answers, of "[]" "[]"]
  by (simp add: auto_discover_months_def)

text \<open>
  The scan from November 2023 with today in February 2024, where only January 2024 has
  data: four queries, in order, February 2024 with 29 days.
\<close>

lemma months_nov_feb: "calendar_months (2023, 11) (2024, 2) = [(2023, 11), (2023, 12), (2024, 1), (2024, 2)]"
  by (simp add: calendar_months_def month_index_def month_of_index_def)

lemma nov_2023: "month_query (2023, 11) = ''/user/consumed-items/nutrients-daily?start=2023-11-01&end=2023-11-30''"
  by code_simp

lemma dec_2023: "month_query (2023, 12) = ''/user/consumed-items/nutrients-daily?start=2023-12-01&end=2023-12-31''"
  by code_simp

lemma jan_2024: "month_query (2024, 1) = ''/user/consumed-items/nutrients-daily?start=2024-01-01&end=2024-01-31''"
  by code_simp

lemma feb_2024: "month_query (2024, 2) = ''/user/consumed-items/nutrients-daily?start=2024-02-01&end=2024-02-29''"
  by code_simp

theorem auto_discover_months_scans_every_month_witness:
  "auto_discover_months
     (YazioClient (\<lambda>url n.
        if url = ''https://yzapi.yazio.com/v15/user/consumed-items/nutrients-daily?start=2024-01-01&end=2024-01-31''
        then Responds \<lparr>status_code = 200,
                        body = Some (JList [JObj [(''date'', JStr ''2024-01-15'')],
                                            JObj [(''date'', JStr ''2024-01-20'')]])\<rparr>
        else Responds \<lparr>status_code = 200, body = Some (JList [])\<rparr>))
     (2024, 2) 2023 11
   = (Inr [JStr ''2024-01-15'', JStr ''2024-01-20''],
      [''/user/consumed-items/nutrients-daily?start=2023-11-01&end=2023-11-30'',
       ''/user/consumed-items/nutrients-daily?start=2023-12-01&end=2023-12-31'',
       ''/user/consumed-items/nutrients-daily?start=2024-01-01&end=2024-01-31'',
       ''/user/consumed-items/nutrients-daily?start=2024-02-01&end=2024-02-29''])"
proof -
  let ?jan = "JList [JObj [(''date'', JStr ''2024-01-15'')], JObj [(''date'', JStr ''2024-01-20'')]]"
  let ?c = "YazioClient (\<lambda>url n.
        if url = ''https://yzapi.yazio.com/v15/user/consumed-items/nutrients-daily?start=2024-01-01&end=2024-01-31''
        then Responds \<lparr>status_code = 200, body = Some ?jan\<rparr>
        else Responds \<lparr>status_code = 200, body = Some (JList [])\<rparr>)"
  let ?data = "\<lambda>ym. if ym = (2024, 1::int) then ?jan else JList []"
  note url = YazioClient_def get_url_def BASE_URL_def API_VERSION_def ok_def
  have a1: "get_json ?c (month_query (2023, 11)) = Inr (JList [])"
    by (rule get_json_first_ok[where r = "\<lparr>status_code = 200, body = Some (JList [])\<rparr>"])
       (simp_all add: url nov_2023)
  have a2: "get_json ?c (month_query (2023, 12)) = Inr (JList [])"
    by (rule get_json_first_ok[where r = "\<lparr>status_code = 200, body = Some (JList [])\<rparr>"])
       (simp_all add: url dec_2023)
  have a3: "get_json ?c (month_query (2024, 1)) = Inr ?jan"
    by (rule get_json_first_ok[where r = "\<lparr>status_code = 200, body = Some ?jan\<rparr>"])
       (simp_all add: url jan_2024)
  have a4: "get_json ?c (month_query (2024, 2)) = Inr (JList [])"
    by (rule get_json_first_ok[where r = "\<lparr>status_code = 200, body = Some (JList [])\<rparr>"])
       (simp_all add: url feb_2024)
  have answers: "\<forall>ym \<in> set (calendar_months (2023, 11) (2024, 2)).
                   get_json ?c (month_query ym) = Inr (?data ym)"
    unfolding months_nov_feb by (simp add: a1 a2 a3 a4)
  have dates: "concat (map (\<lambda>ym. extract_dates (?data ym)) (calendar_months (2023, 11) (2024, 2)))
                 = [JStr ''2024-01-15'', JStr ''2024-01-20'']"
    unfolding months_nov_feb by (simp add: extract_dates_def entry_dates_def dict_of_def)
  have queries: "map month_query (calendar_months (2023, 11) (2024, 2))
     = [''/user/consumed-items/nutrients-daily?start=2023-11-01&end=2023-11-30'',
       ''/user/consumed-items/nutrients-daily?start=2023-12-01&end=2023-12-31'',
       ''/user/consumed-items/nutrients-daily?start=2024-01-01&end=2024-01-31'',
       ''/user/consumed-items/nutrients-daily?start=2024-02-01&end=2024-02-29'']"
    unfolding months_nov_feb by (simp add: nov_2023 dec_2023 jan_2024 feb_2024)
  show ?thesis
    using auto_discover_months_scans_every_month[of 2023 11 2024 2 ?c ?data, OF _ _ _ _ _ _ answers]
    unfolding dates queries by simp
qed


section \<open>Verification: what the client can raise\<close>

text \<open>
  Whatever \<^verbatim>\<open>get\<close> raises is an instance of \<^verbatim>\<open>Exception\<close>, unless the session itself throws
  something else; and so for the functions built on it.
\<close>

lemma py_in_raises_Exception: "py_in key j = Inl e \<Longrightarrow> is_Exception e"
  by (cases j) auto

lemma unauthorized_msg_raises_Exception:
  assumes "unauthorized_msg url r = Inl e"
  shows "is_Exception e"
proof (cases "unauthorized_try url r")
  case (Inr m)
  with assms show ?thesis by (simp add: unauthorized_msg_def)
next
  case (Inl x)
  with assms have xe: "x = e" by (simp add: unauthorized_msg_def split: if_splits)
  show ?thesis
  proof (cases "body r")
    case None
    with Inl xe show ?thesis
      by (auto simp: unauthorized_try_def response_json_def)
  next
    case (Some j)
    with Inl xe show ?thesis
      using py_in_raises_Exception[of "''error''" j e]
        py_in_raises_Exception[of "''message''" j e]
      by (auto simp: unauthorized_try_def response_json_def split: sum.splits bool.splits)
  qed
qed

lemma step_raises_Exception:
  assumes "except_clauses mr i (try_body url mr i out) = Raise e"
    and "\<forall>x. out = Throws x \<longrightarrow> is_Exception x"
  shows "is_Exception e"
proof (cases out)
  case (Throws x)
  with assms show ?thesis
    by (auto simp: except_clauses_def try_body_def split: if_splits)
next
  case (Responds r)
  have "try_body url mr i out = Raise e"
    using assms(1) by (auto simp: except_clauses_def split: step.splits if_splits)
  with Responds show ?thesis
    using unauthorized_msg_raises_Exception[of url r e]
    by (auto simp: try_body_def split: if_splits sum.splits)
qed

lemma get_loop_raises_Exception:
  assumes "fst (get_loop url mr sess as) = Inl e"
    and "\<forall>i x. sess i = Throws x \<longrightarrow> is_Exception x"
  shows "is_Exception e"
  using assms
proof (induction as)
  case Nil
  then show ?case by simp
next
  case (Cons a as)
  show ?case
  proof (cases "except_clauses mr a (try_body url mr a (sess a))")
    case (Return r)
    with Cons.prems show ?thesis by simp
  next
    case (Raise x)
    with Cons.prems have "x = e" by simp
    with Raise Cons.prems(2) show ?thesis
      using step_raises_Exception[of mr a url "sess a" e] by blast
  next
    case (Sleep_Continue t)
    with Cons show ?thesis by (auto split: prod.splits)
  qed
qed

lemma get_raises_Exception:
  assumes "fst (get c endpoint mr) = Inl e"
    and "\<forall>url i x. session c url i = Throws x \<longrightarrow> is_Exception x"
  shows "is_Exception e"
  using assms get_loop_raises_Exception[of "get_url c endpoint" mr "session c (get_url c endpoint)"
          "[0..<nat mr]" e]
  by (simp add: get_def Let_def)

lemma get_json_raises_Exception:
  assumes "get_json c endpoint = Inl e"
    and "\<forall>url i x. session c url i = Throws x \<longrightarrow> is_Exception x"
  shows "is_Exception e"
  using assms get_raises_Exception[of c endpoint MAX_RETRIES]
  by (auto simp: get_json_def json_of_def response_json_def split: sum.splits option.splits)

lemma fetch_nutrient_raises_Exception:
  assumes "fetch_nutrient c n start end' = Inl e"
    and "\<forall>url i x. session c url i = Throws x \<longrightarrow> is_Exception x"
  shows "is_Exception e"
  using assms get_raises_Exception[of c "nutrient_endpoint n start end'" MAX_RETRIES]
  by (auto simp: fetch_nutrient_def json_of_def response_json_def
           split: sum.splits if_splits json.splits option.splits)

text \<open>A first attempt that answers with an \<^verbatim>\<open>ok\<close> response, or with a 4xx other than 401.\<close>

lemma get_first_ok:
  assumes "session c (get_url c endpoint) 0 = Responds r" "ok r" "0 < max_retries"
  shows "get c endpoint max_retries = (Inr (Some r), 1, [])"
proof -
  have "0 < nat max_retries" using assms(3) by simp
  then show ?thesis
    using assms(1,2) by (simp add: get_def Let_def get_loop_last step_ok)
qed

lemma get_first_client_error:
  assumes "session c (get_url c endpoint) 0 = Responds r"
    and "400 \<le> status_code r" "status_code r < 500" "status_code r \<noteq> 401"
    and "0 < max_retries"
  shows "get c endpoint max_retries =
     (Inl (APIError (http_error_msg (status_code r) (get_url c endpoint))
             (Some (status_code r)) (Some (get_url c endpoint))), 1, [])"
proof -
  have "0 < nat max_retries" using assms(5) by simp
  moreover have "except_clauses max_retries 0
      (try_body (get_url c endpoint) max_retries 0 (Responds r)) =
        Raise (APIError (http_error_msg (status_code r) (get_url c endpoint))
                 (Some (status_code r)) (Some (get_url c endpoint)))"
    using assms(2,3,4) by (simp add: except_clauses_def try_body_def ok_def)
  ultimately show ?thesis
    using assms(1) by (simp add: get_def Let_def get_loop_last)
qed

section \<open>Verification: the nutrient batch\<close>

text \<open>Binding a list of keys to one value, as the loop over the error dict does.\<close>

lemma foldl_update_const:
  "map_of (foldl (\<lambda>results k. AList.update k v results) al ks) k =
     (if k \<in> set ks then Some v else map_of al k)"
  by (induction ks arbitrary: al) (auto simp: update_conv')

lemma foldl_update_distinct:
  "distinct (map fst al) \<Longrightarrow> distinct (map fst (foldl (\<lambda>results k. AList.update k v results) al ks))"
  by (induction ks arbitrary: al) (auto simp: distinct_update)

lemma foldl_update_keys:
  "fst ` set (foldl (\<lambda>results k. AList.update k v results) al ks) = fst ` set al \<union> set ks"
  by (induction ks arbitrary: al) (auto simp: dom_update)

text \<open>
  Claim C10. For any completion order, \<^verbatim>\<open>fetch_multiple\<close> returns a dict (whenever the worker
  count is positive and the session throws instances of \<^verbatim>\<open>Exception\<close> only), and the keys
  of every dict it returns are exactly the requested nutrients. A nutrient whose fetch
  raised is bound to the empty dict, not to the exception: the same value as for a
  nutrient whose fetch returned the empty dict.
\<close>

theorem fetch_multiple_binds_every_nutrient:
  assumes perm: "\<forall>fs. mset (as_completed fs) = mset fs"
  shows "(0 < max_workers \<and> (\<forall>url i x. session c url i = Throws x \<longrightarrow> is_Exception x)
            \<longrightarrow> (\<exists>results. fetch_multiple as_completed c nutrients start end' max_workers
                              = Inr results))
       \<and> (\<forall>results.
            fetch_multiple as_completed c nutrients start end' max_workers = Inr results
            \<longrightarrow> distinct (map fst results)
              \<and> fst ` set results = set nutrients
              \<and> (\<forall>n \<in> set nutrients.
                    map_of results n =
                      Some (case fetch_nutrient c n start end' of
                              Inl e \<Rightarrow> []
                            | Inr values \<Rightarrow> values)))"
proof (intro conjI allI impI)
  let ?f = "\<lambda>n. fetch_nutrient c n start end'"
  assume h: "0 < max_workers \<and> (\<forall>url i x. session c url i = Throws x \<longrightarrow> is_Exception x)"
  then have "\<forall>n \<in> set nutrients. \<forall>e. ?f n = Inl e \<longrightarrow> is_Exception e"
    using fetch_nutrient_raises_Exception by blast
  with h obtain succ errs where
    "fetch_concurrent as_completed nutrients ?f max_workers = (Inr (succ, errs), nutrients)"
    using fetch_concurrent_returns[OF perm, of max_workers nutrients ?f] by blast
  then show "\<exists>results. fetch_multiple as_completed c nutrients start end' max_workers
                         = Inr results"
    by (simp add: fetch_multiple_def)
next
  let ?f = "\<lambda>n. fetch_nutrient c n start end'"
  fix results
  assume res: "fetch_multiple as_completed c nutrients start end' max_workers = Inr results"
  then obtain succ errs where
    batch: "fst (fetch_concurrent as_completed nutrients ?f max_workers) = Inr (succ, errs)"
    and results: "results = foldl (\<lambda>results nutrient. AList.update nutrient [] results)
                              succ (map fst errs)"
    by (auto simp: fetch_multiple_def split: sum.splits)
  note closed = fetch_concurrent_Inr[OF perm batch]
  note keys = keys_of_batch[OF perm batch]
  show "distinct (map fst results)"
    unfolding results using closed by (simp add: foldl_update_distinct)
  show "fst ` set results = set nutrients"
    unfolding results foldl_update_keys using keys
    by (auto intro: sum.exhaust[of "fetch_nutrient c _ start end'"])
  show "\<forall>n \<in> set nutrients.
          map_of results n =
            Some (case fetch_nutrient c n start end' of Inl e \<Rightarrow> [] | Inr values \<Rightarrow> values)"
  proof
    fix n assume n: "n \<in> set nutrients"
    show "map_of results n =
            Some (case fetch_nutrient c n start end' of Inl e \<Rightarrow> [] | Inr values \<Rightarrow> values)"
    proof (cases "fetch_nutrient c n start end'")
      case (Inl e)
      then have "n \<in> fst ` set errs" using keys(2) n by simp
      then show ?thesis
        unfolding results foldl_update_const using Inl by simp
    next
      case (Inr vals)
      then have "n \<notin> fst ` set errs" using keys(2) by simp
      moreover have "map_of succ n = Some vals" using closed[of n] n Inr by simp
      ultimately show ?thesis
        unfolding results foldl_update_const using Inr by simp
    qed
  qed
qed

theorem fetch_multiple_binds_every_nutrient_witness:
  "fetch_multiple rev
     (YazioClient (\<lambda>url n.
        if url = ''https://yzapi.yazio.com/v15/user/consumed-items/specific-nutrient-daily?start=2024-01-01&end=2024-01-31&nutrient=vitamin.d''
        then Responds \<lparr>status_code = 200,
                        body = Some (JObj [(''2024-01-01'', JNum 45), (''2024-01-02'', JNull)])\<rparr>
        else Responds \<lparr>status_code = 404, body = Some (JObj [(''error'', JStr ''Not found'')])\<rparr>))
     [''vitamin.d'', ''mineral.iron''] ''2024-01-01'' ''2024-01-31'' 5
   = Inr [(''vitamin.d'', [(''2024-01-01'', JNum 45)]), (''mineral.iron'', [])]
   \<and> fst ` set [(''vitamin.d'', [(''2024-01-01'', JNum 45)]), (''mineral.iron'', [])]
       = set [''vitamin.d'', ''mineral.iron'']"
proof -
  let ?ok = "\<lparr>status_code = 200,
               body = Some (JObj [(''2024-01-01'', JNum 45), (''2024-01-02'', JNull)])\<rparr>"
  let ?nf = "\<lparr>status_code = 404, body = Some (JObj [(''error'', JStr ''Not found'')])\<rparr>"
  let ?c = "YazioClient (\<lambda>url n.
        if url = ''https://yzapi.yazio.com/v15/user/consumed-items/specific-nutrient-daily?start=2024-01-01&end=2024-01-31&nutrient=vitamin.d''
        then Responds ?ok else Responds ?nf)"
  let ?R = "[(''vitamin.d'', [(''2024-01-01'', JNum 45)]), (''mineral.iron'', [])]"
  note url = YazioClient_def get_url_def BASE_URL_def API_VERSION_def nutrient_endpoint_def
  have g1: "get ?c (nutrient_endpoint ''vitamin.d'' ''2024-01-01'' ''2024-01-31'') MAX_RETRIES
              = (Inr (Some ?ok), 1, [])"
    by (rule get_first_ok) (simp_all add: url ok_def MAX_RETRIES_def)
  have g2: "fst (get ?c (nutrient_endpoint ''mineral.iron'' ''2024-01-01'' ''2024-01-31'') MAX_RETRIES)
              = Inl (APIError (http_error_msg 404
                       (get_url ?c (nutrient_endpoint ''mineral.iron'' ''2024-01-01'' ''2024-01-31'')))
                     (Some 404)
                     (Some (get_url ?c (nutrient_endpoint ''mineral.iron'' ''2024-01-01'' ''2024-01-31''))))"
    using get_first_client_error[of ?c "nutrient_endpoint ''mineral.iron'' ''2024-01-01'' ''2024-01-31''"
            ?nf MAX_RETRIES]
    by (simp add: url MAX_RETRIES_def)
  have n1: "fetch_nutrient ?c ''vitamin.d'' ''2024-01-01'' ''2024-01-31''
              = Inr [(''2024-01-01'', JNum 45)]"
    unfolding fetch_nutrient_def g1
    by (simp add: json_of_def response_json_def dict_of_def)
  have n2: "\<exists>e. fetch_nutrient ?c ''mineral.iron'' ''2024-01-01'' ''2024-01-31'' = Inl e \<and> is_Exception e"
    unfolding fetch_nutrient_def g2 by simp
  then obtain e where n2': "fetch_nutrient ?c ''mineral.iron'' ''2024-01-01'' ''2024-01-31'' = Inl e"
    and "is_Exception e" by blast
  then have r: "fetch_multiple rev ?c [''vitamin.d'', ''mineral.iron''] ''2024-01-01'' ''2024-01-31'' 5
                  = Inr ?R"
    using n1 by (simp add: fetch_multiple_def fetch_concurrent_def)
  have p: "\<forall>fs :: (string, (string \<times> json) list) future list. mset (rev fs) = mset fs" by simp
  from fetch_multiple_binds_every_nutrient[OF p, of 5 ?c "[''vitamin.d'', ''mineral.iron'']"
         "''2024-01-01''" "''2024-01-31''"] r
  have "fst ` set ?R = set [''vitamin.d'', ''mineral.iron'']" by blast
  with r show ?thesis by blast
qed


section \<open>Verification: the task decomposer\<close>

text \<open>
  The validation loop finds a requested name outside the registry exactly when there is
  one, and then raises the error that names it.
\<close>

lemma validate_data_types_None:
  "(validate_data_types data_types = None)
     = (\<forall>k \<in> set data_types. map_of fetch_functions k \<noteq> None)"
  by (induction data_types) auto

lemma validate_data_types_Some:
  "validate_data_types data_types = Some e \<Longrightarrow>
   \<exists>k \<in> set data_types. map_of fetch_functions k = None \<and> e = ValueError (unknown_data_type_msg k)"
  by (induction data_types) (auto split: if_splits)

text \<open>The per-date fetch functions raise instances of \<^verbatim>\<open>Exception\<close>, as the client does.\<close>

lemma py_get_raises_Exception: "py_get data key dflt = Inl e \<Longrightarrow> is_Exception e"
  by (cases data) auto

lemma fetch_consumed_raises_Exception:
  assumes "fetch_consumed c d = Inl e"
    and "\<forall>url i x. session c url i = Throws x \<longrightarrow> is_Exception x"
  shows "is_Exception e"
  using assms get_json_raises_Exception[of c _ e] py_get_raises_Exception[of _ _ _ e]
  by (auto simp: fetch_consumed_def split: sum.splits)

lemma fetch_exercises_raises_Exception:
  assumes "fetch_exercises c d = Inl e"
    and "\<forall>url i x. session c url i = Throws x \<longrightarrow> is_Exception x"
  shows "is_Exception e"
  using assms get_json_raises_Exception[of c _ e] py_get_raises_Exception[of _ _ _ e]
  by (auto simp: fetch_exercises_def split: sum.splits)

lemma fetch_daily_summary_raises_Exception:
  assumes "fetch_daily_summary c d = Inl e"
    and "\<forall>url i x. session c url i = Throws x \<longrightarrow> is_Exception x"
  shows "is_Exception e"
  using assms get_json_raises_Exception[of c _ e] py_get_raises_Exception[of _ _ _ e]
  by (auto simp: fetch_daily_summary_def split: sum.splits)

lemma fetch_goals_raises_Exception:
  assumes "fetch_goals c d = Inl e"
    and "\<forall>url i x. session c url i = Throws x \<longrightarrow> is_Exception x"
  shows "is_Exception e"
  using assms get_json_raises_Exception[of c _ e]
  by (auto simp: fetch_goals_def split: sum.splits)

lemma fetch_water_raises_Exception:
  assumes "fetch_water c d = Inl e"
    and "\<forall>url i x. session c url i = Throws x \<longrightarrow> is_Exception x"
  shows "is_Exception e"
  using assms get_json_raises_Exception[of c _ e] py_get_raises_Exception[of _ _ _ e]
  by (auto simp: fetch_water_def split: sum.splits)

lemma fetch_task_raises_Exception:
  assumes "fetch_task c task = Inl e"
    and "\<forall>url i x. session c url i = Throws x \<longrightarrow> is_Exception x"
  shows "is_Exception e"
proof (cases task)
  case (Pair d dtype)
  show ?thesis
  proof (cases "map_of fetch_functions dtype")
    case None
    with assms(1) Pair show ?thesis by (auto simp: fetch_task_def)
  next
    case (Some f)
    then have "f = fetch_consumed \<or> f = fetch_goals \<or> f = fetch_exercises \<or> f = fetch_water
               \<or> f = fetch_daily_summary"
      by (auto simp: fetch_functions_def split: if_splits)
    moreover have "f c d = Inl e" using assms(1) Pair Some by (simp add: fetch_task_def)
    ultimately show ?thesis
      using assms(2) fetch_consumed_raises_Exception fetch_goals_raises_Exception
        fetch_exercises_raises_Exception fetch_water_raises_Exception
        fetch_daily_summary_raises_Exception
      by blast
  qed
qed

text \<open>
  What else can leave \<^verbatim>\<open>fetch_days_concurrent\<close>: the error of the pool's constructor, an
  exception outside \<^verbatim>\<open>Exception\<close> from a task, or a \<^verbatim>\<open>KeyError\<close> of the regrouping; none of
  them is the validation error.
\<close>

lemma collect_Inl:
  "collect fs (r, e) = Inl x \<Longrightarrow> \<not> is_Exception x"
proof (induction fs "(r, e)" arbitrary: r e rule: collect.induct)
  case (1 results errors)
  then show ?case by simp
next
  case (2 item v futures results errors)
  then show ?case by simp
next
  case (3 item y futures results errors)
  then show ?case by (auto split: if_splits)
qed

lemma fetch_concurrent_Inl:
  "fst (fetch_concurrent as_completed items f w) = Inl x \<Longrightarrow>
   x = ValueError ''max_workers must be greater than 0'' \<or> \<not> is_Exception x"
  using collect_Inl[of _ "[]" "[]" x]
  by (auto simp: fetch_concurrent_def Let_def split: if_splits)

lemma unknown_data_type_msg_not_pool:
  "unknown_data_type_msg k \<noteq> ''max_workers must be greater than 0''"
  by (simp add: unknown_data_type_msg_def)

lemma regroup_Inl:
  "regroup kvs results = Inl x \<Longrightarrow> is_KeyError x"
  by (induction kvs results rule: regroup.induct) (auto split: option.splits)

text \<open>
  The regrouping loop: when every pair names a date of the outer dict, the loop returns,
  the outer keys are unchanged, and each inner dict is the old one overwritten with the
  pairs of its date (the last pair for a key wins).
\<close>

lemma map_of_rev_distinct:
  "distinct (map fst xs) \<Longrightarrow> map_of (rev xs) = map_of xs"
proof (induction xs)
  case Nil
  then show ?case by simp
next
  case (Cons p xs)
  then have "fst p \<notin> fst ` set xs" by simp
  then have none: "map_of xs (fst p) = None" by (simp add: map_of_eq_None_iff)
  show ?case
  proof
    fix k
    show "map_of (rev (p # xs)) k = map_of (p # xs) k"
      using Cons none by (cases p) (auto simp: map_add_def split: option.splits)
  qed
qed

lemma fst_tagged: "fst \<circ> (\<lambda>(k, v). (k, f v)) = fst"
  by (auto simp: fun_eq_iff)

lemma set_tasks:
  "set (concat (map (\<lambda>d. map (\<lambda>dtype. (d, dtype)) data_types) dates))
     = set dates \<times> set data_types"
  by auto

lemma regroup_Inr:
  assumes "\<forall>p \<in> set kvs. fst (fst p) \<in> fst ` set results"
  shows "\<exists>results'. regroup kvs results = Inr results'
           \<and> fst ` set results' = fst ` set results
           \<and> (\<forall>d inner. map_of results d = Some inner \<longrightarrow>
                 (\<exists>inner'. map_of results' d = Some inner'
                    \<and> (\<forall>k. map_of inner' k =
                          (case map_of (rev kvs) (d, k) of
                             Some x \<Rightarrow> Some x
                           | None \<Rightarrow> map_of inner k))))"
  using assms
proof (induction kvs arbitrary: results)
  case Nil
  then show ?case by simp
next
  case (Cons p rest)
  obtain d0 k0 x0 where p: "p = ((d0, k0), x0)" by (metis prod.exhaust)
  from Cons.prems p have "d0 \<in> fst ` set results" by simp
  then obtain inner0 where inner0: "map_of results d0 = Some inner0"
    using map_of_eq_None_iff[of results d0] by (cases "map_of results d0") auto
  let ?results1 = "AList.update d0 (AList.update k0 x0 inner0) results"
  have keys1: "fst ` set ?results1 = fst ` set results"
    using \<open>d0 \<in> fst ` set results\<close> by (auto simp: dom_update)
  then have "\<forall>p \<in> set rest. fst (fst p) \<in> fst ` set ?results1"
    using Cons.prems by simp
  from Cons.IH[OF this] obtain results' where
    run: "regroup rest ?results1 = Inr results'"
    and keys: "fst ` set results' = fst ` set ?results1"
    and look: "\<forall>d inner. map_of ?results1 d = Some inner \<longrightarrow>
                 (\<exists>inner'. map_of results' d = Some inner'
                    \<and> (\<forall>k. map_of inner' k =
                          (case map_of (rev rest) (d, k) of
                             Some x \<Rightarrow> Some x
                           | None \<Rightarrow> map_of inner k)))"
    by blast
  have "regroup (p # rest) results = Inr results'"
    using p inner0 run by simp
  moreover have "fst ` set results' = fst ` set results"
    using keys keys1 by simp
  moreover have "\<forall>d inner. map_of results d = Some inner \<longrightarrow>
                 (\<exists>inner'. map_of results' d = Some inner'
                    \<and> (\<forall>k. map_of inner' k =
                          (case map_of (rev (p # rest)) (d, k) of
                             Some x \<Rightarrow> Some x
                           | None \<Rightarrow> map_of inner k)))"
  proof (intro allI impI)
    fix d inner assume d: "map_of results d = Some inner"
    show "\<exists>inner'. map_of results' d = Some inner'
                    \<and> (\<forall>k. map_of inner' k =
                          (case map_of (rev (p # rest)) (d, k) of
                             Some x \<Rightarrow> Some x
                           | None \<Rightarrow> map_of inner k))"
    proof (cases "d = d0")
      case True
      with d inner0 have "inner = inner0" by simp
      then have "map_of ?results1 d = Some (AList.update k0 x0 inner)"
        using True by (simp add: update_conv')
      with look obtain inner' where
        "map_of results' d = Some inner'"
        "\<forall>k. map_of inner' k =
           (case map_of (rev rest) (d, k) of
              Some x \<Rightarrow> Some x
            | None \<Rightarrow> map_of (AList.update k0 x0 inner) k)"
        by blast
      then show ?thesis
        using True p by (auto simp: update_conv' map_add_def split: option.splits)
    next
      case False
      then have "map_of ?results1 d = Some inner"
        using d by (simp add: update_conv')
      with look obtain inner' where
        "map_of results' d = Some inner'"
        "\<forall>k. map_of inner' k =
           (case map_of (rev rest) (d, k) of
              Some x \<Rightarrow> Some x
            | None \<Rightarrow> map_of inner k)"
        by blast
      then show ?thesis
        using False p by (auto simp: map_add_def split: option.splits)
    qed
  qed
  ultimately show ?case by blast
qed

text \<open>The three parts of the claim, one lemma each.\<close>

lemma fetch_days_concurrent_unknown:
  assumes "\<exists>k \<in> set data_types. map_of fetch_functions k = None"
  shows "\<exists>k \<in> set data_types. map_of fetch_functions k = None
           \<and> fetch_days_concurrent as_completed c dates data_types max_workers
               = (Inl (ValueError (unknown_data_type_msg k)), [])"
proof -
  from assms have "validate_data_types data_types \<noteq> None"
    by (simp add: validate_data_types_None)
  then obtain e where e: "validate_data_types data_types = Some e" by auto
  from validate_data_types_Some[OF e] obtain k where
    "k \<in> set data_types" "map_of fetch_functions k = None"
    "e = ValueError (unknown_data_type_msg k)" by blast
  then show ?thesis
    using e by (auto simp: fetch_days_concurrent_def Let_def)
qed

lemma fetch_days_concurrent_known_error:
  assumes known: "\<forall>k \<in> set data_types. map_of fetch_functions k \<noteq> None"
  shows "fst (fetch_days_concurrent as_completed c dates data_types max_workers)
           \<noteq> Inl (ValueError (unknown_data_type_msg k))"
proof
  let ?tasks = "concat (map (\<lambda>d. map (\<lambda>dtype. (d, dtype)) data_types) dates)"
  let ?batch = "fetch_concurrent as_completed ?tasks (fetch_task c) max_workers"
  assume raised: "fst (fetch_days_concurrent as_completed c dates data_types max_workers)
                    = Inl (ValueError (unknown_data_type_msg k))"
  have v: "validate_data_types data_types = None"
    using known by (simp add: validate_data_types_None)
  show False
  proof (cases "fst ?batch")
    case (Inl x)
    then have "fst (fetch_days_concurrent as_completed c dates data_types max_workers) = Inl x"
      using v by (cases ?batch) (simp add: fetch_days_concurrent_def Let_def)
    with raised have "x = ValueError (unknown_data_type_msg k)" by simp
    with fetch_concurrent_Inl[OF Inl] show False
      by (simp add: unknown_data_type_msg_not_pool)
  next
    case (Inr b)
    obtain successes errors where b: "b = (successes, errors)" by (cases b)
    from raised v Inr b have
      "is_KeyError (ValueError (unknown_data_type_msg k))"
      using regroup_Inl[where x = "ValueError (unknown_data_type_msg k)"]
      by (cases ?batch)
         (auto simp: fetch_days_concurrent_def Let_def split: sum.splits)
    then show False by simp
  qed
qed

lemma fetch_days_concurrent_known:
  assumes perm: "\<forall>fs. mset (as_completed fs) = mset fs"
    and known: "\<forall>k \<in> set data_types. map_of fetch_functions k \<noteq> None"
    and w: "0 < max_workers"
    and net: "\<forall>url i x. session c url i = Throws x \<longrightarrow> is_Exception x"
  shows "\<exists>results.
           fetch_days_concurrent as_completed c dates data_types max_workers
             = (Inr results, concat (map (\<lambda>d. map (\<lambda>dtype. (d, dtype)) data_types) dates))
           \<and> fst ` set results = set dates
           \<and> (\<forall>d \<in> set dates. \<exists>inner.
                 map_of results d = Some inner
                 \<and> fst ` set inner = set data_types
                 \<and> (\<forall>k \<in> set data_types. map_of inner k = Some (fetch_task c (d, k))))"
proof -
  let ?tasks = "concat (map (\<lambda>d. map (\<lambda>dtype. (d, dtype)) data_types) dates)"
  let ?R0 = "foldl (\<lambda>acc d. AList.update d [] acc) [] dates :: (py_exn + day_data) by_date"
  have v: "validate_data_types data_types = None"
    using known by (simp add: validate_data_types_None)
  have "\<forall>t \<in> set ?tasks. \<forall>e. fetch_task c t = Inl e \<longrightarrow> is_Exception e"
    using fetch_task_raises_Exception net by blast
  from fetch_concurrent_returns[OF perm w this] obtain successes errors where
    batch: "fetch_concurrent as_completed ?tasks (fetch_task c) max_workers
              = (Inr (successes, errors), ?tasks)"
    by blast
  then have batch1: "fst (fetch_concurrent as_completed ?tasks (fetch_task c) max_workers)
                       = Inr (successes, errors)" by simp
  note closed = fetch_concurrent_Inr[OF perm batch1]
  note keys = keys_of_batch[OF perm batch1]
  let ?S = "map (\<lambda>(k, v). (k, Inr v)) successes :: ((string \<times> string) \<times> (py_exn + day_data)) list"
  let ?E = "map (\<lambda>(k, err). (k, Inl err)) errors :: ((string \<times> string) \<times> (py_exn + day_data)) list"
  have keysR0: "fst ` set ?R0 = set dates"
    by (simp add: foldl_update_keys)
  have lookR0: "map_of ?R0 d = (if d \<in> set dates then Some [] else None)" for d
    by (simp add: foldl_update_const)
  have S_keys: "\<forall>p \<in> set ?S. fst (fst p) \<in> fst ` set ?R0"
  proof
    fix p assume "p \<in> set ?S"
    then have "fst p \<in> fst ` set successes" by force
    then have "fst p \<in> set ?tasks" using keys(1) by simp
    then show "fst (fst p) \<in> fst ` set ?R0" unfolding keysR0 set_tasks by auto
  qed
  from regroup_Inr[OF S_keys] obtain R1 where
    all1: "regroup ?S ?R0 = Inr R1
         \<and> fst ` set R1 = fst ` set ?R0
         \<and> (\<forall>d inner. map_of ?R0 d = Some inner \<longrightarrow>
                 (\<exists>inner'. map_of R1 d = Some inner'
                    \<and> (\<forall>k. map_of inner' k =
                          (case map_of (rev ?S) (d, k) of
                             Some x \<Rightarrow> Some x
                           | None \<Rightarrow> map_of inner k))))" ..
  from all1 have run1: "regroup ?S ?R0 = Inr R1" by (rule conjunct1)
  from all1 have keys1: "fst ` set R1 = fst ` set ?R0" by (rule conjunct2[THEN conjunct1])
  from all1 have look1: "\<forall>d inner. map_of ?R0 d = Some inner \<longrightarrow>
                 (\<exists>inner'. map_of R1 d = Some inner'
                    \<and> (\<forall>k. map_of inner' k =
                          (case map_of (rev ?S) (d, k) of
                             Some x \<Rightarrow> Some x
                           | None \<Rightarrow> map_of inner k)))"
    by (rule conjunct2[THEN conjunct2])
  have E_keys: "\<forall>p \<in> set ?E. fst (fst p) \<in> fst ` set R1"
  proof
    fix p assume "p \<in> set ?E"
    then have "fst p \<in> fst ` set errors" by force
    then have "fst p \<in> set ?tasks" using keys(2) by simp
    then show "fst (fst p) \<in> fst ` set R1" unfolding keys1 keysR0 set_tasks by auto
  qed
  from regroup_Inr[OF E_keys] obtain R2 where
    all2: "regroup ?E R1 = Inr R2
         \<and> fst ` set R2 = fst ` set R1
         \<and> (\<forall>d inner. map_of R1 d = Some inner \<longrightarrow>
                 (\<exists>inner'. map_of R2 d = Some inner'
                    \<and> (\<forall>k. map_of inner' k =
                          (case map_of (rev ?E) (d, k) of
                             Some x \<Rightarrow> Some x
                           | None \<Rightarrow> map_of inner k))))" ..
  from all2 have run2: "regroup ?E R1 = Inr R2" by (rule conjunct1)
  from all2 have keys2: "fst ` set R2 = fst ` set R1" by (rule conjunct2[THEN conjunct1])
  from all2 have look2: "\<forall>d inner. map_of R1 d = Some inner \<longrightarrow>
                 (\<exists>inner'. map_of R2 d = Some inner'
                    \<and> (\<forall>k. map_of inner' k =
                          (case map_of (rev ?E) (d, k) of
                             Some x \<Rightarrow> Some x
                           | None \<Rightarrow> map_of inner k)))"
    by (rule conjunct2[THEN conjunct2])
  have ds: "distinct (map fst successes)" and de: "distinct (map fst errors)"
    using fetch_concurrent_Inr[OF perm batch1] by auto
  have "map_of (rev ?S) = map_of ?S"
    using ds by (intro map_of_rev_distinct) (simp add: fst_tagged)
  then have mS: "map_of (rev ?S) = map_option Inr \<circ> map_of successes"
    by (simp only: map_of_map)
  have "map_of (rev ?E) = map_of ?E"
    using de by (intro map_of_rev_distinct) (simp add: fst_tagged)
  then have mE: "map_of (rev ?E) = map_option Inl \<circ> map_of errors"
    by (simp only: map_of_map)
  have result: "fetch_days_concurrent as_completed c dates data_types max_workers
                  = (Inr R2, ?tasks)"
    using v batch run1 run2 by (simp add: fetch_days_concurrent_def Let_def)
  have per_date: "\<exists>inner. map_of R2 d = Some inner
                    \<and> fst ` set inner = set data_types
                    \<and> (\<forall>k \<in> set data_types. map_of inner k = Some (fetch_task c (d, k)))"
    if d: "d \<in> set dates" for d
  proof -
    have r0: "map_of ?R0 d = Some []" using lookR0[of d] d by simp
    from look1[rule_format, OF r0] obtain inner1 where
      i1: "map_of R1 d = Some inner1"
      and l1: "\<forall>k. map_of inner1 k = (case map_of (rev ?S) (d, k) of
                                          Some x \<Rightarrow> Some x | None \<Rightarrow> None)"
      by (auto cong: option.case_cong)
    from look2[rule_format, OF i1] obtain inner2 where
      i2: "map_of R2 d = Some inner2"
      and l2: "\<forall>k. map_of inner2 k = (case map_of (rev ?E) (d, k) of
                                          Some x \<Rightarrow> Some x | None \<Rightarrow> map_of inner1 k)"
      by auto
    have bound: "map_of inner2 k =
                   (if k \<in> set data_types then Some (fetch_task c (d, k)) else None)" for k
    proof (cases "k \<in> set data_types")
      case True
      then have t: "(d, k) \<in> set ?tasks" using d unfolding set_tasks by simp
      show ?thesis
        using closed[of "(d, k)"] t True l1 l2
        by (cases "fetch_task c (d, k)") (simp_all add: mS mE)
    next
      case False
      then have t: "(d, k) \<notin> set ?tasks" unfolding set_tasks by simp
      show ?thesis
        using closed[of "(d, k)"] t False l1 l2 by (simp add: mS mE)
    qed
    have "dom (map_of inner2) = set data_types"
      unfolding dom_def using bound by auto
    then have "fst ` set inner2 = set data_types"
      by (simp add: dom_map_of_conv_image_fst)
    with i2 bound show ?thesis by auto
  qed
  show ?thesis
    using result keys2 keys1 keysR0 per_date by auto
qed

text \<open>
  Claim C7. \<^verbatim>\<open>fetch_days_concurrent\<close> raises the validation error, which names a requested
  kind outside the registry, if and only if there is such a kind, and then no fetch task
  has been submitted. Otherwise (for a positive worker count and a session that throws
  instances of \<^verbatim>\<open>Exception\<close> only) it returns a dict whose keys are the input dates, and the
  inner dict of every date binds exactly the requested kinds, each to the outcome of its
  own task: the fetched value, or the exception object the task raised.
\<close>

theorem fetch_days_concurrent_validates_then_regroups:
  assumes perm: "\<forall>fs. mset (as_completed fs) = mset fs"
  shows "((\<exists>k \<in> set data_types. map_of fetch_functions k = None) \<longrightarrow>
            (\<exists>k \<in> set data_types. map_of fetch_functions k = None
               \<and> fetch_days_concurrent as_completed c dates data_types max_workers
                   = (Inl (ValueError (unknown_data_type_msg k)), [])))
       \<and> ((\<forall>k \<in> set data_types. map_of fetch_functions k \<noteq> None) \<longrightarrow>
            (\<forall>k. fst (fetch_days_concurrent as_completed c dates data_types max_workers)
                   \<noteq> Inl (ValueError (unknown_data_type_msg k))))
       \<and> ((\<forall>k \<in> set data_types. map_of fetch_functions k \<noteq> None) \<and> 0 < max_workers
            \<and> (\<forall>url i x. session c url i = Throws x \<longrightarrow> is_Exception x) \<longrightarrow>
            (\<exists>results.
               fetch_days_concurrent as_completed c dates data_types max_workers
                 = (Inr results, concat (map (\<lambda>d. map (\<lambda>dtype. (d, dtype)) data_types) dates))
               \<and> fst ` set results = set dates
               \<and> (\<forall>d \<in> set dates. \<exists>inner.
                     map_of results d = Some inner
                     \<and> fst ` set inner = set data_types
                     \<and> (\<forall>k \<in> set data_types.
                           map_of inner k = Some (fetch_task c (d, k))))))"
proof (intro conjI impI)
  assume "\<exists>k \<in> set data_types. map_of fetch_functions k = None"
  then show "\<exists>k \<in> set data_types. map_of fetch_functions k = None
               \<and> fetch_days_concurrent as_completed c dates data_types max_workers
                   = (Inl (ValueError (unknown_data_type_msg k)), [])"
    by (rule fetch_days_concurrent_unknown)
next
  assume "\<forall>k \<in> set data_types. map_of fetch_functions k \<noteq> None"
  then show "\<forall>k. fst (fetch_days_concurrent as_completed c dates data_types max_workers)
                   \<noteq> Inl (ValueError (unknown_data_type_msg k))"
    using fetch_days_concurrent_known_error by blast
next
  assume h: "(\<forall>k \<in> set data_types. map_of fetch_functions k \<noteq> None) \<and> 0 < max_workers
            \<and> (\<forall>url i x. session c url i = Throws x \<longrightarrow> is_Exception x)"
  show "\<exists>results.
               fetch_days_concurrent as_completed c dates data_types max_workers
                 = (Inr results, concat (map (\<lambda>d. map (\<lambda>dtype. (d, dtype)) data_types) dates))
               \<and> fst ` set results = set dates
               \<and> (\<forall>d \<in> set dates. \<exists>inner.
                     map_of results d = Some inner
                     \<and> fst ` set inner = set data_types
                     \<and> (\<forall>k \<in> set data_types.
                           map_of inner k = Some (fetch_task c (d, k))))"
    using h by (intro fetch_days_concurrent_known[OF perm]) simp_all
qed

text \<open>The message of the validation error for the unknown name \<^verbatim>\<open>invalid\<close>.\<close>

lemma unknown_data_type_msg_invalid:
  "unknown_data_type_msg ''invalid'' =
     ''Unknown data type: invalid. Must be one of ['' @
     [CHR 0x27] @ ''consumed'' @ [CHR 0x27] @ '', '' @
     [CHR 0x27] @ ''goals'' @ [CHR 0x27] @ '', '' @
     [CHR 0x27] @ ''exercises'' @ [CHR 0x27] @ '', '' @
     [CHR 0x27] @ ''water'' @ [CHR 0x27] @ '', '' @
     [CHR 0x27] @ ''daily_summary'' @ [CHR 0x27] @ '', '' @
     [CHR 0x27] @ ''summary'' @ [CHR 0x27] @ '']''"
  by (simp add: unknown_data_type_msg_def fetch_functions_def py_repr_str_def)

theorem fetch_days_concurrent_validates_then_regroups_witness:
  "fetch_days_concurrent rev
     (YazioClient (\<lambda>url n.
        if url = ''https://yzapi.yazio.com/v15/user/goals?date=2024-01-15''
        then Responds \<lparr>status_code = 200, body = Some (JObj [(''energy'', JNum 2000)])\<rparr>
        else Responds \<lparr>status_code = 404, body = Some (JObj [(''error'', JStr ''Not found'')])\<rparr>))
     [''2024-01-15''] [''consumed'', ''invalid''] 10
     = (Inl (ValueError (unknown_data_type_msg ''invalid'')), [])
   \<and> fetch_days_concurrent rev
     (YazioClient (\<lambda>url n.
        if url = ''https://yzapi.yazio.com/v15/user/goals?date=2024-01-15''
        then Responds \<lparr>status_code = 200, body = Some (JObj [(''energy'', JNum 2000)])\<rparr>
        else Responds \<lparr>status_code = 404, body = Some (JObj [(''error'', JStr ''Not found'')])\<rparr>))
     [''2024-01-15''] [''goals'', ''water''] 10
     = (Inr [(''2024-01-15'',
              [(''goals'', Inr (Goals (JObj [(''energy'', JNum 2000)]))),
               (''water'',
                Inl (APIError
                       (http_error_msg 404 ''https://yzapi.yazio.com/v15/user/water-intake?date=2024-01-15'')
                       (Some 404)
                       (Some ''https://yzapi.yazio.com/v15/user/water-intake?date=2024-01-15'')))])],
        [(''2024-01-15'', ''goals''), (''2024-01-15'', ''water'')])
   \<and> fst ` set [(''2024-01-15'',
              [(''goals'', Inr (Goals (JObj [(''energy'', JNum 2000)]))),
               (''water'',
                Inl (APIError
                       (http_error_msg 404 ''https://yzapi.yazio.com/v15/user/water-intake?date=2024-01-15'')
                       (Some 404)
                       (Some ''https://yzapi.yazio.com/v15/user/water-intake?date=2024-01-15'')))])]
     = set [''2024-01-15'']"
proof -
  let ?ok = "\<lparr>status_code = 200, body = Some (JObj [(''energy'', JNum 2000)])\<rparr>"
  let ?nf = "\<lparr>status_code = 404, body = Some (JObj [(''error'', JStr ''Not found'')])\<rparr>"
  let ?c = "YazioClient (\<lambda>url n.
        if url = ''https://yzapi.yazio.com/v15/user/goals?date=2024-01-15''
        then Responds ?ok else Responds ?nf)"
  let ?err = "APIError
                (http_error_msg 404 ''https://yzapi.yazio.com/v15/user/water-intake?date=2024-01-15'')
                (Some 404)
                (Some ''https://yzapi.yazio.com/v15/user/water-intake?date=2024-01-15'')"
  note url = YazioClient_def get_url_def BASE_URL_def API_VERSION_def
  have p: "\<forall>fs :: (string \<times> string, day_data) future list. mset (rev fs) = mset fs" by simp
  note inst = fetch_days_concurrent_validates_then_regroups[OF p]
  have "\<exists>k \<in> set [''consumed'', ''invalid'']. map_of fetch_functions k = None"
    by (simp add: fetch_functions_def)
  with inst[of "[''consumed'', ''invalid'']" ?c "[''2024-01-15'']" 10]
  obtain k where "k \<in> set [''consumed'', ''invalid'']" "map_of fetch_functions k = None"
    and r: "fetch_days_concurrent rev ?c [''2024-01-15''] [''consumed'', ''invalid''] 10
              = (Inl (ValueError (unknown_data_type_msg k)), [])"
    by blast
  then have "k = ''invalid''" by (auto simp: fetch_functions_def)
  with r have first: "fetch_days_concurrent rev ?c [''2024-01-15''] [''consumed'', ''invalid''] 10
              = (Inl (ValueError (unknown_data_type_msg ''invalid'')), [])" by simp
  have g1: "get_json ?c ''/user/goals?date=2024-01-15'' = Inr (JObj [(''energy'', JNum 2000)])"
    by (rule get_json_first_ok[where r = ?ok]) (simp_all add: url ok_def)
  have g2: "get ?c ''/user/water-intake?date=2024-01-15'' MAX_RETRIES = (Inl ?err, 1, [])"
    using get_first_client_error[of ?c "''/user/water-intake?date=2024-01-15''" ?nf MAX_RETRIES]
    by (simp add: url MAX_RETRIES_def)
  have t1: "fetch_task ?c (''2024-01-15'', ''goals'') = Inr (Goals (JObj [(''energy'', JNum 2000)]))"
    using g1 by (simp add: fetch_task_def fetch_functions_def fetch_goals_def)
  have t2: "fetch_task ?c (''2024-01-15'', ''water'') = Inl ?err"
    using g2 by (simp add: fetch_task_def fetch_functions_def fetch_water_def get_json_def)
  have second: "fetch_days_concurrent rev ?c [''2024-01-15''] [''goals'', ''water''] 10
     = (Inr [(''2024-01-15'', [(''goals'', Inr (Goals (JObj [(''energy'', JNum 2000)]))),
                               (''water'', Inl ?err)])],
        [(''2024-01-15'', ''goals''), (''2024-01-15'', ''water'')])"
    using t1 t2
    by (simp add: fetch_days_concurrent_def fetch_concurrent_def fetch_functions_def Let_def)
  have known: "\<forall>k \<in> set [''goals'', ''water'']. map_of fetch_functions k \<noteq> None"
    by (simp add: fetch_functions_def)
  have net: "\<forall>url i x. session ?c url i = Throws x \<longrightarrow> is_Exception x"
    by (simp add: YazioClient_def)
  from inst[of "[''goals'', ''water'']" ?c "[''2024-01-15'']" 10] known net
  obtain results where
    "fetch_days_concurrent rev ?c [''2024-01-15''] [''goals'', ''water''] 10
       = (Inr results, concat (map (\<lambda>d. map (\<lambda>dtype. (d, dtype)) [''goals'', ''water''])
                                 [''2024-01-15'']))"
    and "fst ` set results = set [''2024-01-15'']"
    by auto
  with second have third:
    "fst ` set [(''2024-01-15'', [(''goals'', Inr (Goals (JObj [(''energy'', JNum 2000)]))),
                                  (''water'', Inl ?err)])] = set [''2024-01-15'']"
    by simp
  from first second third show ?thesis by simp
qed

end
